theory Spec2Isabelle
  imports Main
begin

section \<open>Python text primitives\<close>

text \<open>
  Python \<open>str\<close> values are modelled as \<^typ>\<open>string\<close>: a list of characters with code
  points below 256. The primitives below follow the built-in methods of \<open>str\<close> on that
  range.
\<close>

text \<open>\<open>str.isspace\<close> on one character: the white space that \<open>str.strip()\<close> removes.\<close>

definition is_space :: "char \<Rightarrow> bool" where
  "is_space c = (c \<in> set [CHR 0x09, CHR 0x0A, CHR 0x0B, CHR 0x0C, CHR 0x0D,
     CHR 0x1C, CHR 0x1D, CHR 0x1E, CHR 0x1F, CHR 0x20, CHR 0x85, CHR 0xA0])"

text \<open>\<open>s.strip()\<close>: drop leading and trailing white space.\<close>

definition strip :: "string \<Rightarrow> string" where
  "strip s = rev (dropWhile is_space (rev (dropWhile is_space s)))"

text \<open>\<open>s.endswith(t)\<close> and \<open>s.startswith(t)\<close>.\<close>

definition endswith :: "string \<Rightarrow> string \<Rightarrow> bool" where
  "endswith s t = (length t \<le> length s \<and> drop (length s - length t) s = t)"

definition startswith :: "string \<Rightarrow> string \<Rightarrow> bool" where
  "startswith s t = (take (length t) s = t)"

text \<open>\<open>t in s\<close> for strings: \<open>t\<close> occurs in \<open>s\<close> as a contiguous run.\<close>

fun contains :: "string \<Rightarrow> string \<Rightarrow> bool" where
  "contains [] t = (t = [])"
| "contains (c # cs) t = (startswith (c # cs) t \<or> contains cs t)"

text \<open>\<open>"\n".join(lines)\<close>.\<close>

fun join_lines :: "string list \<Rightarrow> string" where
  "join_lines [] = []"
| "join_lines [l] = l"
| "join_lines (l # m # ls) = l @ [CHR 0x0A] @ join_lines (m # ls)"

text \<open>
  \<open>str.lower()\<close> and \<open>str.upper()\<close>, one character at a time. Upper-casing the sharp s
  (\<open>0xDF\<close>) gives two characters, so \<open>upper_char\<close> returns a string. The upper-case forms
  of the micro sign (\<open>0xB5\<close>) and of y with diaeresis (\<open>0xFF\<close>) have code points above 255;
  the model leaves these two characters as they are, which like Python's result is not an
  ASCII character.
\<close>

definition ucase_letters :: string where
  "ucase_letters = ''ABCDEFGHIJKLMNOPQRSTUVWXYZ'' @
     [CHR 0xC0, CHR 0xC1, CHR 0xC2, CHR 0xC3, CHR 0xC4, CHR 0xC5, CHR 0xC6, CHR 0xC7,
      CHR 0xC8, CHR 0xC9, CHR 0xCA, CHR 0xCB, CHR 0xCC, CHR 0xCD, CHR 0xCE, CHR 0xCF,
      CHR 0xD0, CHR 0xD1, CHR 0xD2, CHR 0xD3, CHR 0xD4, CHR 0xD5, CHR 0xD6,
      CHR 0xD8, CHR 0xD9, CHR 0xDA, CHR 0xDB, CHR 0xDC, CHR 0xDD, CHR 0xDE]"

definition lcase_letters :: string where
  "lcase_letters = ''abcdefghijklmnopqrstuvwxyz'' @
     [CHR 0xE0, CHR 0xE1, CHR 0xE2, CHR 0xE3, CHR 0xE4, CHR 0xE5, CHR 0xE6, CHR 0xE7,
      CHR 0xE8, CHR 0xE9, CHR 0xEA, CHR 0xEB, CHR 0xEC, CHR 0xED, CHR 0xEE, CHR 0xEF,
      CHR 0xF0, CHR 0xF1, CHR 0xF2, CHR 0xF3, CHR 0xF4, CHR 0xF5, CHR 0xF6,
      CHR 0xF8, CHR 0xF9, CHR 0xFA, CHR 0xFB, CHR 0xFC, CHR 0xFD, CHR 0xFE]"

definition lower_char :: "char \<Rightarrow> char" where
  "lower_char c = (case map_of (zip ucase_letters lcase_letters) c of
                     Some d \<Rightarrow> d | None \<Rightarrow> c)"

definition upper_char :: "char \<Rightarrow> string" where
  "upper_char c = (if c = CHR 0xDF then ''SS''
                   else case map_of (zip lcase_letters ucase_letters) c of
                          Some d \<Rightarrow> [d] | None \<Rightarrow> [c])"

definition lower :: "string \<Rightarrow> string" where
  "lower s = map lower_char s"

definition upper :: "string \<Rightarrow> string" where
  "upper s = concat (map upper_char s)"

text \<open>\<open>str(n)\<close> for an integer: decimal digits, with a minus sign when negative.\<close>

definition digit_char :: "nat \<Rightarrow> char" where
  "digit_char d = ''0123456789'' ! (d mod 10)"

function str_nat :: "nat \<Rightarrow> string" where
  "str_nat n = (if n < 10 then [digit_char n] else str_nat (n div 10) @ [digit_char n])"
  by pat_completeness auto
termination
  by (relation "measure id") auto

definition str_int :: "int \<Rightarrow> string" where
  "str_int i = (if i < 0 then CHR ''-'' # str_nat (nat (- i)) else str_nat (nat i))"

text \<open>
  \<open>xs[:n]\<close>: the first \<open>n\<close> items; a negative \<open>n\<close> counts from the end, so that the
  last \<open>-n\<close> items are left out.
\<close>

definition slice_to :: "'a list \<Rightarrow> int \<Rightarrow> 'a list" where
  "slice_to xs n = (if 0 \<le> n then take (nat n) xs
                    else take (length xs - nat (- n)) xs)"

section \<open>Exceptions (core/exceptions.py)\<close>

text \<open>
  The exception classes the pipeline distinguishes, each carrying its message
  (\<open>str(exc)\<close>). \<open>PrestoUserError\<close> and \<open>PrestoQueryError\<close> are the driver's errors,
  \<open>AttributeError\<close> and \<open>IndexError\<close> the built-in ones; \<open>OtherException\<close> is any other
  subclass of \<open>Exception\<close>, and \<open>NonException\<close> an exception that derives from
  \<open>BaseException\<close> only (\<open>KeyboardInterrupt\<close>, \<open>CancelledError\<close>), which
  \<open>except Exception\<close> does not catch.
\<close>

datatype exn =
    SchemaLoadError string
  | QueryGenerationError string
  | ClassificationError string
  | DatabaseConnectionError string
  | QueryExecutionError string
  | PrestoUserError string
  | PrestoQueryError string
  | AttributeError string
  | IndexError string
  | OtherException string
  | NonException string

fun str_exn :: "exn \<Rightarrow> string" where
  "str_exn (SchemaLoadError m) = m"
| "str_exn (QueryGenerationError m) = m"
| "str_exn (ClassificationError m) = m"
| "str_exn (DatabaseConnectionError m) = m"
| "str_exn (QueryExecutionError m) = m"
| "str_exn (PrestoUserError m) = m"
| "str_exn (PrestoQueryError m) = m"
| "str_exn (AttributeError m) = m"
| "str_exn (IndexError m) = m"
| "str_exn (OtherException m) = m"
| "str_exn (NonException m) = m"

text \<open>\<open>isinstance(e, Exception)\<close>: what a clause \<open>except Exception\<close> catches.\<close>

fun is_Exception :: "exn \<Rightarrow> bool" where
  "is_Exception (NonException m) = False"
| "is_Exception e = True"

section \<open>Data model (core/models.py)\<close>

record SchemaColumn =
  name :: string
  col_type :: string
  field_name :: "string option"
  description :: "string option"
  formula :: "string option"


text \<open>Property \<open>label\<close>: \<open>self.field_name or self.name\<close>.\<close>

definition label :: "SchemaColumn \<Rightarrow> string" where
  "label c = (case field_name c of
                None \<Rightarrow> name c
              | Some f \<Rightarrow> if f \<noteq> [] then f else name c)"


record SchemaTable =
  table_name :: string
  columns :: "SchemaColumn list"

text \<open>
  \<open>SchemaCatalog.tables\<close> is a dictionary from table name to table; it is iterated in
  insertion order, so it is kept as an association list.
\<close>

record SchemaCatalog =
  tables :: "(string \<times> SchemaTable) list"

text \<open>
  \<open>QueryResult\<close>. The rows are dictionaries of column values; their type is left open as
  \<open>'r\<close>.
\<close>

record 'r QueryResult =
  query_id :: string
  sql :: string
  rows :: "'r list"
  result_columns :: "string list"
  row_count :: int
  execution_ms :: "int option"
  cached :: bool

text \<open>
  Validator \<open>_default_row_count\<close> (run always, after \<open>rows\<close> has been validated):
  a true (non-zero) value is returned as it is, any other is replaced by \<open>len(rows)\<close>.
\<close>

definition default_row_count :: "int \<Rightarrow> 'r list \<Rightarrow> int" where
  "default_row_count v rs = (if v \<noteq> 0 then v else int (length rs))"

text \<open>
  Construction \<open>QueryResult(query_id=..., sql=..., rows=..., columns=..., row_count=...,
  execution_ms=..., cached=...)\<close>. The keyword \<open>row_count\<close> is optional: \<open>None\<close> stands for
  a call that does not supply it, and the field default \<open>0\<close> is then validated.
\<close>

definition mk_QueryResult ::
  "string \<Rightarrow> string \<Rightarrow> 'r list \<Rightarrow> string list \<Rightarrow> int option \<Rightarrow> int option \<Rightarrow> bool
     \<Rightarrow> 'r QueryResult" where
  "mk_QueryResult qid q rs cols rc ms c =
     \<lparr> query_id = qid, sql = q, rows = rs, result_columns = cols,
       row_count = default_row_count (case rc of None \<Rightarrow> 0 | Some v \<Rightarrow> v) rs,
       execution_ms = ms, cached = c \<rparr>"


text \<open>
  \<open>QueryRequest\<close>. The validator \<open>_strip_query\<close> trims \<open>user_query\<close> and rejects an empty
  result with \<open>ValueError\<close>; the \<open>metadata\<close> dictionary is not read by the functions
  modelled here and is left out.
\<close>

record QueryRequest =
  request_id :: string
  user_query :: string
  previous_error :: "string option"

definition mk_QueryRequest :: "string \<Rightarrow> string \<Rightarrow> exn + QueryRequest" where
  "mk_QueryRequest rid text =
     (let stripped = strip text in
      if stripped = [] then Inl (OtherException ''user_query cannot be empty'')
      else Inr \<lparr> request_id = rid, user_query = stripped, previous_error = None \<rparr>)"

section \<open>Configuration (utils/config.py)\<close>

text \<open>The two settings the modelled functions read.\<close>

record AppConfig =
  max_results_display :: int
  execute_queries :: bool

section \<open>Intent classification (core/triage_service.py)\<close>

definition GREETING_KEYWORDS :: "string list" where
  "GREETING_KEYWORDS = [''hi'', ''hello'', ''hey'', ''good morning'', ''good afternoon'',
     ''good evening'', ''greetings'', ''yo'', ''hola'', ''namaste'']"

definition CATEGORY_LABELS :: "string list" where
  "CATEGORY_LABELS = [''DATA_QUESTION'', ''GENERAL_QUESTION'', ''GREETING'', ''OUT_OF_SCOPE'']"

definition classification_prompt :: "string \<Rightarrow> string" where
  "classification_prompt q =
     ''Classify the user query into one of four categories:'' @ [CHR 0x0A] @
     ''1. DATA_QUESTION: Questions that require querying data, metrics, analytics, statistics.'' @ [CHR 0x0A] @
     ''2. GENERAL_QUESTION: Questions about how the system works, definitions, explanations, or high-level concepts.'' @ [CHR 0x0A] @
     ''3. GREETING: Salutations such as hi, hello, good morning.'' @ [CHR 0x0A] @
     ''4. OUT_OF_SCOPE: Anything unrelated to the analytics system.'' @ [CHR 0x0A, CHR 0x0A] @
     ''User query: '' @ q @ [CHR 0x0A, CHR 0x0A] @
     ''Respond with exactly one label: DATA_QUESTION, GENERAL_QUESTION, GREETING, or OUT_OF_SCOPE.''"

text \<open>
  A chat completion response is the list of its choices, each with the message content
  (\<open>None\<close> when the message has none). The remote service is a function from the prompt
  sent to the outcome of \<open>chat.completions.create\<close>: an exception or a response.
\<close>

type_synonym chat_response = "string option list"

type_synonym chat_client = "string \<Rightarrow> exn + chat_response"

text \<open>\<open>content or ""\<close>.\<close>

fun content_or_empty :: "string option \<Rightarrow> string" where
  "content_or_empty None = []"
| "content_or_empty (Some s) = s"

text \<open>
  \<open>TriageService.classify_query\<close>. The result is paired with the prompts sent to the
  remote service during the call, in order: an empty list says that no remote call was
  issued. \<open>response.choices[0]\<close> raises \<open>IndexError\<close> on a response with no choice; that
  statement stands outside the \<open>try\<close>.
\<close>

definition classify_query :: "chat_client \<Rightarrow> QueryRequest \<Rightarrow> (exn + string) \<times> string list" where
  "classify_query create request =
     (let lower_query = lower (user_query request) in
      if list_ex (\<lambda>keyword. contains lower_query keyword) GREETING_KEYWORDS
      then (Inr ''GREETING'', [])
      else
        let prompt = classification_prompt (user_query request) in
        case create prompt of
          Inl exc \<Rightarrow>
            (if is_Exception exc then Inl (ClassificationError (str_exn exc)) else Inl exc,
             [prompt])
        | Inr response \<Rightarrow>
            (case response of
               [] \<Rightarrow> (Inl (IndexError ''list index out of range''), [prompt])
             | content # others \<Rightarrow>
                 (let lbl = upper (strip (content_or_empty content)) in
                  (Inr (if lbl \<notin> set CATEGORY_LABELS then ''DATA_QUESTION'' else lbl),
                   [prompt]))))"

text \<open>
  A whole-word reading of the greeting shortcut, for comparison with the substring test
  of \<open>classify_query\<close>: the words of a text are its runs of characters between spaces.
\<close>

fun split_words :: "string \<Rightarrow> string \<Rightarrow> string list" where
  "split_words [] w = (if w = [] then [] else [w])"
| "split_words (c # cs) w =
     (if c = CHR '' '' then (if w = [] then split_words cs [] else w # split_words cs [])
      else split_words cs (w @ [c]))"

definition has_greeting_word :: "string \<Rightarrow> bool" where
  "has_greeting_word q = list_ex (\<lambda>w. w \<in> set GREETING_KEYWORDS) (split_words (lower q) [])"

section \<open>Prompt rendering and SQL clean-up (core/ai_service.py)\<close>








text \<open>
  The substitution \<open>re.sub\<close> of \<open>_clean_sql_query\<close>, whose pattern is three backquotes
  followed by an optional \<open>sql\<close>, replaced by the empty string: scanning from the left,
  every run of three backquotes, together with the letters \<open>sql\<close> when they follow at
  once, is deleted, and the scan goes on after the deleted text.
\<close>

definition fence :: string where
  "fence = [CHR 0x60, CHR 0x60, CHR 0x60]"

fun sub_fences :: "string \<Rightarrow> string" where
  "sub_fences [] = []"
| "sub_fences (c # cs) =
     (if startswith (c # cs) fence
      then (if startswith (drop 3 (c # cs)) ''sql'' then sub_fences (drop 6 (c # cs))
            else sub_fences (drop 3 (c # cs)))
      else c # sub_fences cs)"

text \<open>\<open>AIService._clean_sql_query\<close>.\<close>

definition clean_sql_query :: "string \<Rightarrow> string" where
  "clean_sql_query sql_query =
     (let q1 = sub_fences sql_query;
          q2 = strip q1
      in if endswith q2 '';'' then butlast q2 else q2)"

text \<open>A text that does not begin with a backquote (used to state where a scan resumes).\<close>

definition no_backquote_head :: "string \<Rightarrow> bool" where
  "no_backquote_head r = (case r of [] \<Rightarrow> True | c # cs \<Rightarrow> c \<noteq> CHR 0x60)"

section \<open>Database access and schema cache (core/database_manager.py)\<close>

text \<open>
  The state of a \<open>DatabaseManager\<close>: the connection and cursor handles (\<open>None\<close> until
  opened), the cached catalog and the \<open>_schema_loaded\<close> event. The field \<open>loads\<close> is not in
  the source: it counts the calls of \<open>_load_schema_from_disk\<close>, so that "how many loads
  ran" can be stated.
\<close>

record DatabaseManager =
  connection :: "nat option"
  cursor :: "nat option"
  loaded_schema :: "SchemaCatalog option"
  schema_loaded :: bool
  loads :: nat

definition new_DatabaseManager :: DatabaseManager where
  "new_DatabaseManager =
     \<lparr> connection = None, cursor = None, loaded_schema = None, schema_loaded = False,
       loads = 0 \<rparr>"

text \<open>
  The Presto driver is outside the repository. It is given by the outcome of each of its
  calls: \<open>prestodb.dbapi.connect\<close>, \<open>connection.cursor()\<close>, \<open>cursor.execute(sql)\<close> (on success
  the column names of \<open>cursor.description\<close>, or \<open>None\<close> when there is no description) and
  \<open>cursor.fetchall()\<close>.
\<close>

record 'v presto =
  connect :: "exn + nat"
  open_cursor :: "nat \<Rightarrow> exn + nat"
  cursor_execute :: "string \<Rightarrow> exn + string list option"
  fetchall :: "string \<Rightarrow> exn + 'v list list"

text \<open>
  \<open>_ensure_connection\<close>: an exception of the driver is caught by \<open>except Exception\<close> and
  raised again as \<open>DatabaseConnectionError(str(exc))\<close>. The result is the exception raised,
  if any, and the state left behind.
\<close>

definition connection_handler :: "exn \<Rightarrow> exn" where
  "connection_handler exc =
     (if is_Exception exc then DatabaseConnectionError (str_exn exc) else exc)"

definition ensure_connection :: "'v presto \<Rightarrow> DatabaseManager \<Rightarrow> exn option \<times> DatabaseManager" where
  "ensure_connection drv db =
     (if connection db \<noteq> None \<and> cursor db \<noteq> None then (None, db)
      else case connect drv of
             Inl exc \<Rightarrow> (Some (connection_handler exc), db)
           | Inr conn \<Rightarrow>
               (case open_cursor drv conn of
                  Inl exc \<Rightarrow> (Some (connection_handler exc), db\<lparr>connection := Some conn\<rparr>)
                | Inr cur \<Rightarrow> (None, db\<lparr>connection := Some conn, cursor := Some cur\<rparr>)))"

text \<open>
  \<open>dict(zip(columns, row))\<close>: a dictionary in insertion order; a key that comes again
  keeps its place and takes the later value.
\<close>

fun dict_set :: "'k \<Rightarrow> 'v \<Rightarrow> ('k \<times> 'v) list \<Rightarrow> ('k \<times> 'v) list" where
  "dict_set k v [] = [(k, v)]"
| "dict_set k v ((k', v') # d) = (if k = k' then (k', v) # d else (k', v') # dict_set k v d)"

definition dict_of :: "('k \<times> 'v) list \<Rightarrow> ('k \<times> 'v) list" where
  "dict_of kvs = foldl (\<lambda>d (k, v). dict_set k v d) [] kvs"

text \<open>
  The three \<open>except\<close> clauses of \<open>_execute_sync\<close>, in the order of the source:
  \<open>PrestoUserError\<close>, \<open>PrestoQueryError\<close>, then \<open>Exception\<close>; each raises
  \<open>QueryExecutionError(str(exc))\<close>. An exception outside \<open>Exception\<close> passes through.
\<close>

fun execution_handler :: "exn \<Rightarrow> exn" where
  "execution_handler (PrestoUserError m) = QueryExecutionError m"
| "execution_handler (PrestoQueryError m) = QueryExecutionError m"
| "execution_handler (NonException m) = NonException m"
| "execution_handler exc = QueryExecutionError (str_exn exc)"

text \<open>
  \<open>_execute_sync\<close>. The whole body, \<open>_ensure_connection\<close> included, stands inside the \<open>try\<close>.
  The query id and the measured duration are arguments. The \<open>assert\<close> on the cursor raises
  \<open>AssertionError\<close>, an \<open>Exception\<close> with an empty message.
\<close>

definition execute_sync ::
  "'v presto \<Rightarrow> DatabaseManager \<Rightarrow> string \<Rightarrow> string \<Rightarrow> int
     \<Rightarrow> (exn + (string \<times> 'v) list QueryResult) \<times> DatabaseManager" where
  "execute_sync drv db sql_text qid ms =
     (case ensure_connection drv db of
        (Some exc, db') \<Rightarrow> (Inl (execution_handler exc), db')
      | (None, db') \<Rightarrow>
          (case cursor db' of
             None \<Rightarrow> (Inl (execution_handler (OtherException [])), db')
           | Some cur \<Rightarrow>
               (case cursor_execute drv sql_text of
                  Inl exc \<Rightarrow> (Inl (execution_handler exc), db')
                | Inr None \<Rightarrow>
                    (Inr (mk_QueryResult qid sql_text [] [] (Some 0) (Some ms) False), db')
                | Inr (Some cols) \<Rightarrow>
                    (case fetchall drv sql_text of
                       Inl exc \<Rightarrow> (Inl (execution_handler exc), db')
                     | Inr rws \<Rightarrow>
                         (let result_rows = map (\<lambda>row. dict_of (zip cols row)) rws in
                          (Inr (mk_QueryResult qid sql_text result_rows cols
                                  (Some (int (length result_rows))) (Some ms) False),
                           db'))))))"

text \<open>\<open>DatabaseManager.execute\<close>.\<close>

definition execute ::
  "AppConfig \<Rightarrow> 'v presto \<Rightarrow> DatabaseManager \<Rightarrow> string \<Rightarrow> string \<Rightarrow> int
     \<Rightarrow> (exn + (string \<times> 'v) list QueryResult) \<times> DatabaseManager" where
  "execute cfg drv db sql_text qid ms =
     (if \<not> execute_queries cfg
      then (Inr (mk_QueryResult qid sql_text [] [] (Some 0) None False), db)
      else execute_sync drv db sql_text qid ms)"

text \<open>
  The schema source: the outcome of the \<open>k\<close>-th call of \<open>_load_schema_from_disk\<close> (the
  file may change between two calls).
\<close>

type_synonym schema_source = "nat \<Rightarrow> exn + SchemaCatalog"

text \<open>
  \<open>get_schema\<close>. Its body runs under \<open>_schema_load_lock\<close>, an \<open>asyncio.Lock\<close>: the bodies of
  concurrent callers do not overlap, so a call is one step on the state. When the load
  raises, the exception leaves the body and neither the catalog nor the event is set.
\<close>

definition get_schema :: "schema_source \<Rightarrow> DatabaseManager \<Rightarrow> (exn + SchemaCatalog) \<times> DatabaseManager" where
  "get_schema disk db =
     (case loaded_schema db of
        Some schema \<Rightarrow> (Inr schema, db)
      | None \<Rightarrow>
          (case disk (loads db) of
             Inl exc \<Rightarrow> (Inl exc, db\<lparr>loads := Suc (loads db)\<rparr>)
           | Inr schema \<Rightarrow>
               (Inr schema,
                db\<lparr>loaded_schema := Some schema, schema_loaded := True,
                   loads := Suc (loads db)\<rparr>)))"

text \<open>
  \<open>n\<close> callers of \<open>get_schema\<close>, in the order in which they get the lock; the results are in
  that order.
\<close>

fun get_schema_calls ::
  "schema_source \<Rightarrow> nat \<Rightarrow> DatabaseManager \<Rightarrow> (exn + SchemaCatalog) list \<times> DatabaseManager" where
  "get_schema_calls disk 0 db = ([], db)"
| "get_schema_calls disk (Suc n) db =
     (let (r, db') = get_schema disk db;
          (rs, db'') = get_schema_calls disk n db'
      in (r # rs, db''))"

text \<open>
  \<open>wait_for_schema\<close>. The call waits on the event, which only \<open>get_schema\<close> sets. The
  argument \<open>n\<close> is the number of calls of \<open>get_schema\<close> that other tasks still make; the result
  \<open>None\<close> says that the event is never set and the call does not return.
\<close>

fun wait_for_schema ::
  "schema_source \<Rightarrow> nat \<Rightarrow> DatabaseManager \<Rightarrow> (exn + SchemaCatalog) option" where
  "wait_for_schema disk 0 db =
     (if schema_loaded db
      then Some (case loaded_schema db of
                   None \<Rightarrow> Inl (SchemaLoadError ''Schema not loaded after waiting.'')
                 | Some schema \<Rightarrow> Inr schema)
      else None)"
| "wait_for_schema disk (Suc n) db =
     (if schema_loaded db
      then Some (case loaded_schema db of
                   None \<Rightarrow> Inl (SchemaLoadError ''Schema not loaded after waiting.'')
                 | Some schema \<Rightarrow> Inr schema)
      else wait_for_schema disk n (snd (get_schema disk db)))"

text \<open>A schema source whose file is missing at every load.\<close>

definition missing_file :: schema_source where
  "missing_file k = Inl (SchemaLoadError ''Schema file not found: data/mapping.json'')"

section \<open>The pipeline (core/query_processor.py)\<close>

text \<open>
  The collaborators of \<open>QueryProcessor\<close> are protocols. Each is given by the outcome of its
  call for the arguments passed: a value or the exception raised. The schema type \<open>'s\<close> and
  the row type \<open>'r\<close> are left open; \<open>database_execute\<close> takes the SQL, the user question and
  the query id.
\<close>

record ('s, 'r) services =
  triage_classify_query :: "QueryRequest \<Rightarrow> exn + string"
  ai_answer_general_question :: "QueryRequest \<Rightarrow> exn + string"
  ai_generate_sql_query :: "QueryRequest \<Rightarrow> 's \<Rightarrow> exn + string"
  database_get_schema :: "exn + 's"
  database_execute :: "string \<Rightarrow> string \<Rightarrow> string \<Rightarrow> exn + 'r QueryResult"

text \<open>
  \<open>_format_success_response\<close>. The loop over \<open>enumerate(preview_rows, start=1)\<close> appends one
  numbered line per row; \<open>str_row\<close> is \<open>str\<close> on a row.
\<close>

fun append_rows :: "('r \<Rightarrow> string) \<Rightarrow> int \<Rightarrow> 'r list \<Rightarrow> string list \<Rightarrow> string list" where
  "append_rows str_row idx [] output_lines = output_lines"
| "append_rows str_row idx (row # rest) output_lines =
     append_rows str_row (idx + 1) rest (output_lines @ [str_int idx @ ''. '' @ str_row row])"

definition results_header :: "int \<Rightarrow> string" where
  "results_header n =
     ''Results ('' @ str_int n @ '' row'' @ (if n \<noteq> 1 then ''s'' else []) @ ''):''"

definition format_success_response ::
  "AppConfig \<Rightarrow> ('r \<Rightarrow> string) \<Rightarrow> string \<Rightarrow> 'r QueryResult \<Rightarrow> string" where
  "format_success_response cfg str_row sql_text result =
     (if rows result = []
      then ''Generated SQL Query:'' @ [CHR 0x0A, CHR 0x0A] @ sql_text @ [CHR 0x0A, CHR 0x0A]
             @ ''No results were returned.''
      else
        let preview_rows = slice_to (rows result) (max_results_display cfg);
            header_lines = [''Generated SQL Query:'', [], sql_text, [],
                            results_header (row_count result), []];
            row_lines = append_rows str_row 1 preview_rows header_lines;
            remaining = row_count result - int (length preview_rows);
            output_lines =
              (if remaining > 0
               then row_lines @ [[], ''... and '' @ str_int remaining @ '' more row(s).'']
               else row_lines)
        in join_lines output_lines)"

text \<open>The texts returned for a failed stage.\<close>

definition classification_failed :: string where
  "classification_failed =
     ''I could not determine how to handle that question. Please try rephrasing.''"

definition out_of_scope :: string where
  "out_of_scope =
     ''I'm sorry, but that question is outside my current scope. '' @
     ''I can help with video analytics data questions or information about the system.''"

definition general_failed :: string where
  "general_failed = ''I ran into an issue while answering that. Please try again shortly.''"

definition schema_load_failed :: string where
  "schema_load_failed =
     ''I couldn't load the schema information required to generate SQL. '' @
     ''Please verify the schema configuration and try again.''"

definition schema_unexpected :: string where
  "schema_unexpected =
     ''Something went wrong while loading the schema definition. '' @
     ''Please try again or contact support.''"

definition generation_failed :: string where
  "generation_failed =
     ''I wasn't able to generate a valid SQL query for that question. '' @
     ''Please revise the question or provide more detail.''"

definition execution_failed :: "string \<Rightarrow> string" where
  "execution_failed sql_text =
     ''Generated SQL Query:'' @ [CHR 0x0A, CHR 0x0A] @ sql_text @ [CHR 0x0A, CHR 0x0A] @
     ''The query failed to execute. Please review the SQL and try again.''"

definition connection_failed :: string where
  "connection_failed = ''Unable to connect to the database right now. Please try again later.''"

definition execution_unexpected :: "string \<Rightarrow> string" where
  "execution_unexpected sql_text =
     ''Generated SQL Query:'' @ [CHR 0x0A, CHR 0x0A] @ sql_text @ [CHR 0x0A, CHR 0x0A] @
     ''An unexpected error occurred while executing the query.''"

text \<open>
  The \<open>except\<close> clauses of each \<open>try\<close>, in the order of the source. The result is the text
  returned (\<open>Inr\<close>) or the exception that leaves the method (\<open>Inl\<close>): one raised in the
  clause, or one that no clause catches.
\<close>

fun on_classification_error :: "exn \<Rightarrow> exn + string" where
  "on_classification_error (ClassificationError m) = Inr classification_failed"
| "on_classification_error exc = Inl exc"

fun on_general_error :: "exn \<Rightarrow> exn + string" where
  "on_general_error (QueryGenerationError m) = Inr general_failed"
| "on_general_error exc = Inl exc"

fun on_schema_error :: "exn \<Rightarrow> exn + string" where
  "on_schema_error (AttributeError m) =
     Inl (QueryGenerationError ''Database manager does not expose schema retrieval.'')"
| "on_schema_error (SchemaLoadError m) = Inr schema_load_failed"
| "on_schema_error (NonException m) = Inl (NonException m)"
| "on_schema_error exc = Inr schema_unexpected"

fun on_generation_error :: "exn \<Rightarrow> exn + string" where
  "on_generation_error (QueryGenerationError m) = Inr generation_failed"
| "on_generation_error exc = Inl exc"

fun on_execution_error :: "string \<Rightarrow> exn \<Rightarrow> exn + string" where
  "on_execution_error sql_text (QueryExecutionError m) = Inr (execution_failed sql_text)"
| "on_execution_error sql_text (DatabaseConnectionError m) = Inr connection_failed"
| "on_execution_error sql_text (NonException m) = Inl (NonException m)"
| "on_execution_error sql_text exc = Inr (execution_unexpected sql_text)"

text \<open>\<open>_handle_general_question\<close> and \<open>_handle_data_question\<close>.\<close>

definition handle_general_question :: "('s, 'r) services \<Rightarrow> QueryRequest \<Rightarrow> exn + string" where
  "handle_general_question svc request =
     (case ai_answer_general_question svc request of
        Inr answer \<Rightarrow> Inr answer
      | Inl exc \<Rightarrow> on_general_error exc)"

definition handle_data_question ::
  "AppConfig \<Rightarrow> ('r \<Rightarrow> string) \<Rightarrow> ('s, 'r) services \<Rightarrow> QueryRequest \<Rightarrow> exn + string" where
  "handle_data_question cfg str_row svc request =
     (case database_get_schema svc of
        Inl exc \<Rightarrow> on_schema_error exc
      | Inr schema \<Rightarrow>
          (case ai_generate_sql_query svc request schema of
             Inl exc \<Rightarrow> on_generation_error exc
           | Inr sql_text \<Rightarrow>
               (case database_execute svc sql_text (user_query request) (request_id request) of
                  Inl exc \<Rightarrow> on_execution_error sql_text exc
                | Inr result \<Rightarrow> Inr (format_success_response cfg str_row sql_text result))))"

text \<open>\<open>QueryProcessor.process\<close>.\<close>

definition process ::
  "AppConfig \<Rightarrow> ('r \<Rightarrow> string) \<Rightarrow> ('s, 'r) services \<Rightarrow> QueryRequest \<Rightarrow> exn + string" where
  "process cfg str_row svc request =
     (case triage_classify_query svc request of
        Inl exc \<Rightarrow> on_classification_error exc
      | Inr category \<Rightarrow>
          if category = ''OUT_OF_SCOPE'' then Inr out_of_scope
          else if category \<in> {''GREETING'', ''GENERAL_QUESTION''}
          then handle_general_question svc request
          else if category = ''DATA_QUESTION''
          then handle_data_question cfg str_row svc request
          else handle_data_question cfg str_row svc request)"

text \<open>
  Stand-ins for the collaborators, for concrete runs of the pipeline: the classifier and the
  schema retrieval have the given outcomes, the other calls succeed.
\<close>

definition example_services ::
  "(exn + string) \<Rightarrow> (exn + SchemaCatalog) \<Rightarrow> (SchemaCatalog, string) services" where
  "example_services classified schema_outcome =
     \<lparr> triage_classify_query = (\<lambda>r. classified),
       ai_answer_general_question = (\<lambda>r. Inr ''Hello''),
       ai_generate_sql_query = (\<lambda>r s. Inr ''SELECT 1''),
       database_get_schema = schema_outcome,
       database_execute = (\<lambda>q u i. Inr (mk_QueryResult i q [] [] None None False)) \<rparr>"

section \<open>Properties\<close>

subsection \<open>Auxiliary facts about text\<close>

lemma startswith_fence_iff:
  "startswith x fence \<longleftrightarrow> (\<exists>r. x = CHR 0x60 # CHR 0x60 # CHR 0x60 # r)"
proof (cases x)
  case Nil
  then show ?thesis by (simp add: startswith_def fence_def)
next
  case (Cons a y)
  note xa = this
  show ?thesis
  proof (cases y)
    case Nil
    then show ?thesis using xa by (simp add: startswith_def fence_def)
  next
    case (Cons b z)
    then show ?thesis using xa by (cases z) (auto simp: startswith_def fence_def)
  qed
qed

lemma startswith_sql_iff:
  "startswith x ''sql'' \<longleftrightarrow> (\<exists>r. x = CHR ''s'' # CHR ''q'' # CHR ''l'' # r)"
proof (cases x)
  case Nil
  then show ?thesis by (simp add: startswith_def)
next
  case (Cons a y)
  note xa = this
  show ?thesis
  proof (cases y)
    case Nil
    then show ?thesis using xa by (simp add: startswith_def)
  next
    case (Cons b z)
    then show ?thesis using xa by (cases z) (auto simp: startswith_def)
  qed
qed

lemma fence_append: "fence @ x = CHR 0x60 # CHR 0x60 # CHR 0x60 # x"
  by (simp add: fence_def)

lemma sub_fences_at_fence:
  "sub_fences (CHR 0x60 # CHR 0x60 # CHR 0x60 # x) =
     (if startswith x ''sql'' then sub_fences (drop 3 x) else sub_fences x)"
  by (simp add: startswith_fence_iff)

lemma sub_fences_no_fence:
  "\<not> startswith (c # cs) fence \<Longrightarrow> sub_fences (c # cs) = c # sub_fences cs"
  by simp

lemma sub_fences_plain:
  "list_all (\<lambda>c. c \<noteq> CHR 0x60) w \<Longrightarrow> sub_fences (w @ x) = w @ sub_fences x"
proof (induction w)
  case Nil
  then show ?case by simp
next
  case (Cons a w)
  then have "\<not> startswith (a # w @ x) fence" by (simp add: startswith_fence_iff)
  with Cons show ?case by simp
qed

lemma sub_fences_head:
  "\<not> startswith x ''sql'' \<Longrightarrow> sub_fences (fence @ x) = sub_fences x"
  by (simp only: fence_append sub_fences_at_fence if_False)

lemma sub_fences_head_sql:
  "sub_fences (fence @ ''sql'' @ x) = sub_fences x"
proof -
  have "startswith (''sql'' @ x) ''sql''" by (simp add: startswith_def)
  moreover have "drop 3 (''sql'' @ x) = x" by simp
  ultimately show ?thesis by (simp only: fence_append sub_fences_at_fence if_True)
qed

lemma no_fence_short:
  assumes "no_backquote_head r"
  shows "\<not> startswith r fence" "\<not> startswith (CHR 0x60 # r) fence"
     "\<not> startswith (CHR 0x60 # CHR 0x60 # r) fence"
  using assms by (cases r; simp add: startswith_fence_iff no_backquote_head_def)+

lemma no_sql_backquote: "\<not> startswith (CHR 0x60 # r) ''sql''"
  by (simp add: startswith_sql_iff)

lemma sub_fences_append:
  "\<not> contains s fence \<Longrightarrow> no_backquote_head r \<Longrightarrow> sub_fences (s @ r) = s @ sub_fences r"
proof (induction s)
  case Nil
  then show ?case by simp
next
  case (Cons a s)
  then have nf: "\<not> startswith (a # s) fence" and ns: "\<not> contains s fence" by simp_all
  have "\<not> startswith (a # s @ r) fence"
  proof
    assume "startswith (a # s @ r) fence"
    then obtain t where t: "a # s @ r = CHR 0x60 # CHR 0x60 # CHR 0x60 # t"
      by (auto simp: startswith_fence_iff)
    show False
    proof (cases s)
      case Nil
      with t Cons.prems(2) show False by (cases r) (auto simp: no_backquote_head_def)
    next
      case (Cons b s')
      note sb = this
      show False
      proof (cases s')
        case Nil
        with t sb Cons.prems(2) show False by (cases r) (auto simp: no_backquote_head_def)
      next
        case (Cons c s'')
        with t sb nf show False by (auto simp: startswith_fence_iff)
      qed
    qed
  qed
  with Cons.IH [OF ns Cons.prems(2)] show ?case by simp
qed

lemma sub_fences_append_fence:
  "\<not> contains s fence \<Longrightarrow> no_backquote_head r \<Longrightarrow> \<not> startswith r ''sql''
     \<Longrightarrow> sub_fences (s @ fence @ r) = s @ sub_fences r"
proof (induction s)
  case Nil
  then show ?case by (simp add: sub_fences_head)
next
  case (Cons a s)
  then have nf: "\<not> startswith (a # s) fence" and ns: "\<not> contains s fence" by simp_all
  note nr = no_fence_short [OF Cons.prems(2)]
  show ?case
  proof (cases "startswith (a # s @ fence @ r) fence")
    case False
    with Cons.IH [OF ns Cons.prems(2,3)] show ?thesis by simp
  next
    case True
    then obtain t where t: "a # s @ fence @ r = CHR 0x60 # CHR 0x60 # CHR 0x60 # t"
      by (auto simp: startswith_fence_iff)
    show ?thesis
    proof (cases s)
      case Nil
      with t have a: "a = CHR 0x60" by simp
      have "sub_fences (CHR 0x60 # fence @ r) = sub_fences (CHR 0x60 # r)"
        by (simp only: fence_append sub_fences_at_fence no_sql_backquote if_False)
      also have "\<dots> = CHR 0x60 # sub_fences r"
        using nr(2) by (rule sub_fences_no_fence)
      finally show ?thesis using Nil a by simp
    next
      case (Cons b s')
      note sb = this
      show ?thesis
      proof (cases s')
        case Nil
        with t sb have ab: "a = CHR 0x60" "b = CHR 0x60" by simp_all
        have "sub_fences (CHR 0x60 # CHR 0x60 # fence @ r) = sub_fences (CHR 0x60 # CHR 0x60 # r)"
          by (simp only: fence_append sub_fences_at_fence no_sql_backquote if_False)
        also have "\<dots> = CHR 0x60 # sub_fences (CHR 0x60 # r)"
          using nr(3) by (rule sub_fences_no_fence)
        also have "\<dots> = CHR 0x60 # CHR 0x60 # sub_fences r"
          by (simp only: sub_fences_no_fence [OF nr(2)])
        finally show ?thesis using Nil sb ab by simp
      next
        case (Cons c s'')
        with t sb nf show ?thesis by (auto simp: startswith_fence_iff)
      qed
    qed
  qed
qed

lemma strip_id_iff:
  "strip m = m \<longleftrightarrow> (m = [] \<or> (\<not> is_space (hd m) \<and> \<not> is_space (last m)))"
proof
  assume id: "strip m = m"
  show "m = [] \<or> (\<not> is_space (hd m) \<and> \<not> is_space (last m))"
  proof (cases "m = []")
    case True
    then show ?thesis by simp
  next
    case False
    let ?d = "dropWhile is_space m"
    have "length (strip m) \<le> length ?d"
      unfolding strip_def by (simp add: length_dropWhile_le) (metis length_dropWhile_le length_rev)
    with id have "length m \<le> length ?d" by simp
    moreover have "length (takeWhile is_space m) + length ?d = length m"
      by (metis length_append takeWhile_dropWhile_id)
    ultimately have "length (takeWhile is_space m) = 0" by linarith
    then have "takeWhile is_space m = []" by (simp only: length_0_conv)
    then have d: "?d = m" by (metis append_Nil takeWhile_dropWhile_id)
    then have h: "\<not> is_space (hd m)" using False by (metis hd_dropWhile)
    from id d have "rev (dropWhile is_space (rev m)) = m" by (simp add: strip_def)
    then have "dropWhile is_space (rev m) = rev m" by (metis rev_rev_ident)
    then have "\<not> is_space (hd (rev m))" using False by (metis hd_dropWhile rev_is_Nil_conv)
    then have "\<not> is_space (last m)" using False by (simp add: hd_rev)
    with h show ?thesis by simp
  qed
next
  assume a: "m = [] \<or> (\<not> is_space (hd m) \<and> \<not> is_space (last m))"
  show "strip m = m"
  proof (cases "m = []")
    case True
    then show ?thesis by (simp add: strip_def)
  next
    case False
    with a have h: "\<not> is_space (hd m)" and l: "\<not> is_space (last m)" by simp_all
    from h False have 1: "dropWhile is_space m = m" by (simp add: dropWhile_eq_self_iff)
    from l False have 2: "dropWhile is_space (rev m) = rev m"
      by (simp add: dropWhile_eq_self_iff hd_rev)
    show ?thesis by (simp add: strip_def 1 2)
  qed
qed

lemma strip_spaces:
  assumes "list_all is_space a"
  shows "strip a = []"
proof -
  have d: "dropWhile is_space a = []"
    using assms by (simp add: dropWhile_eq_Nil_conv list_all_iff)
  show ?thesis unfolding strip_def d by simp
qed

lemma strip_wrap:
  assumes a: "list_all is_space a" and b: "list_all is_space b" and m: "strip m = m"
  shows "strip (a @ m @ b) = m"
proof (cases "m = []")
  case True
  have "list_all is_space (a @ b)" using a b by simp
  then show ?thesis using True by (simp add: strip_spaces)
next
  case False
  with m have h: "\<not> is_space (hd m)" and l: "\<not> is_space (last m)"
    by (simp_all add: strip_id_iff)
  have 1: "dropWhile is_space (a @ m @ b) = m @ b"
  proof -
    have "dropWhile is_space (a @ m @ b) = dropWhile is_space (m @ b)"
      using a by (intro dropWhile_append2) (simp add: list_all_iff)
    also have "\<dots> = m @ b" using h False by (cases m) simp_all
    finally show ?thesis .
  qed
  have 2: "dropWhile is_space (rev b @ rev m) = rev m"
  proof -
    have "dropWhile is_space (rev b @ rev m) = dropWhile is_space (rev m)"
      using b by (intro dropWhile_append2) (simp add: list_all_iff)
    also have "\<dots> = rev m" using l False by (simp add: dropWhile_eq_self_iff hd_rev)
    finally show ?thesis .
  qed
  show ?thesis by (simp add: strip_def 1 2)
qed

lemma spaces_plain: "list_all is_space w \<Longrightarrow> list_all (\<lambda>c. c \<noteq> CHR 0x60) w"
  by (auto simp: list_all_iff is_space_def)

lemma spaces_no_backquote: "list_all is_space w \<Longrightarrow> no_backquote_head w"
  by (cases w) (auto simp: no_backquote_head_def is_space_def)

lemma spaces_no_sql: "list_all is_space w \<Longrightarrow> \<not> startswith (w @ x) ''sql'' \<or> w = []"
  by (cases w) (auto simp: startswith_sql_iff is_space_def)

lemma sub_fences_spaces: "list_all is_space w \<Longrightarrow> sub_fences w = w"
  using sub_fences_plain [OF spaces_plain, of w "[]"] by simp

lemma sub_fences_close:
  assumes "cls \<in> {[], fence}" and "list_all is_space w3"
  shows "sub_fences (cls @ w3) = w3"
proof -
  have "\<not> startswith w3 ''sql''" using spaces_no_sql [OF assms(2), of "[]"]
    by (auto simp: startswith_def)
  then show ?thesis using assms by (auto simp: sub_fences_head sub_fences_spaces)
qed

lemma sub_fences_tail:
  assumes s: "\<not> contains s fence"
    and trm: "trm \<in> {[], '';''}" and cls: "cls \<in> {[], fence}"
    and w2: "list_all is_space w2" and w3: "list_all is_space w3"
  shows "sub_fences (s @ trm @ w2 @ cls @ w3) = s @ trm @ w2 @ w3"
proof (cases "trm = [] \<and> w2 = []")
  case True
  show ?thesis
  proof (cases "cls = []")
    case True
    with \<open>trm = [] \<and> w2 = []\<close> show ?thesis
      using sub_fences_append [OF s spaces_no_backquote [OF w3]] sub_fences_spaces [OF w3]
      by simp
  next
    case False
    with cls have c: "cls = fence" by simp
    have "\<not> startswith w3 ''sql''" using spaces_no_sql [OF w3, of "[]"]
      by (auto simp: startswith_def)
    from sub_fences_append_fence [OF s spaces_no_backquote [OF w3] this]
    show ?thesis using True c sub_fences_spaces [OF w3] by simp
  qed
next
  case False
  have p: "list_all (\<lambda>c. c \<noteq> CHR 0x60) (trm @ w2)"
    using trm spaces_plain [OF w2] by auto
  have h: "no_backquote_head (trm @ w2 @ cls @ w3)"
    using False trm spaces_no_backquote [OF w2]
    by (cases w2) (auto simp: no_backquote_head_def)
  have "sub_fences (s @ trm @ w2 @ cls @ w3) = s @ sub_fences ((trm @ w2) @ cls @ w3)"
    using sub_fences_append [OF s h] by simp
  also have "\<dots> = s @ (trm @ w2) @ sub_fences (cls @ w3)"
    by (simp only: sub_fences_plain [OF p])
  also have "\<dots> = s @ trm @ w2 @ w3"
    by (simp add: sub_fences_close [OF cls w3])
  finally show ?thesis .
qed

lemma no_sql_append:
  assumes "\<not> startswith s ''sql''"
    and "case rest of [] \<Rightarrow> True | c # cs \<Rightarrow> c \<notin> set ''sql''"
  shows "\<not> startswith (s @ rest) ''sql''"
proof (cases s)
  case Nil
  with assms(2) show ?thesis by (cases rest) (auto simp: startswith_sql_iff)
next
  case (Cons a t)
  note sa = this
  show ?thesis
  proof (cases t)
    case Nil
    with sa assms(2) show ?thesis by (cases rest) (auto simp: startswith_sql_iff)
  next
    case (Cons b u)
    note tb = this
    show ?thesis
    proof (cases u)
      case Nil
      with sa tb assms(2) show ?thesis by (cases rest) (auto simp: startswith_sql_iff)
    next
      case (Cons c v)
      with sa tb assms(1) show ?thesis by (auto simp: startswith_sql_iff)
    qed
  qed
qed

lemma spaces_head: "list_all is_space w \<Longrightarrow> (case w @ x of [] \<Rightarrow> True | c # cs \<Rightarrow> c \<notin> set ''sql'') \<or> w = []"
  by (cases w) (auto simp: is_space_def)

lemma rest_head:
  assumes "trm \<in> {[], '';''}" and "cls \<in> {[], fence}"
    and "list_all is_space w2" and "list_all is_space w3"
  shows "case trm @ w2 @ cls @ w3 of [] \<Rightarrow> True | c # cs \<Rightarrow> c \<notin> set ''sql''"
proof (cases "trm = []")
  case False
  with assms(1) show ?thesis by auto
next
  case True
  note t = this
  show ?thesis
  proof (cases "w2 = []")
    case False
    with spaces_head [OF assms(3), of "cls @ w3"] t show ?thesis by simp
  next
    case True
    note w = this
    show ?thesis
    proof (cases "cls = []")
      case False
      with assms(2) t w show ?thesis by (auto simp: fence_def)
    next
      case True
      with spaces_head [OF assms(4), of "[]"] t w show ?thesis by (cases w3) auto
    qed
  qed
qed

lemma strip_with_terminator:
  assumes "strip s = s"
  shows "strip (s @ '';'') = s @ '';''"
proof -
  have "\<not> is_space (CHR '';'')" by (simp add: is_space_def)
  moreover have "s \<noteq> [] \<Longrightarrow> \<not> is_space (hd s)" using assms by (simp add: strip_id_iff)
  ultimately show ?thesis by (cases s) (auto simp: strip_id_iff)
qed

lemma endswith_terminator: "endswith (s @ '';'') '';''"
  by (simp add: endswith_def)


subsection \<open>Auxiliary facts about schema rendering\<close>








lemma upper_Nil: "upper [] = []" by (simp add: upper_def)

lemma data_question_label: "''DATA_QUESTION'' \<in> set CATEGORY_LABELS"
  by (simp add: CATEGORY_LABELS_def)

lemma empty_not_label: "[] \<notin> set CATEGORY_LABELS"
  by (simp add: CATEGORY_LABELS_def)


subsection \<open>C5: the two column forms of the schema prompt\<close>













subsection \<open>C6: cleaning generated SQL\<close>

text \<open>
  C6 as stated fails: with white space between the SQL and the appended terminator, the
  terminator is dropped but the white space before it stays, so the result differs from
  the SQL.
\<close>

theorem C6_space_before_terminator:
  "clean_sql_query ''SELECT 1 ;'' \<noteq> ''SELECT 1''"
  by code_simp

text \<open>
  C6 (amended): let \<open>s\<close> hold no run of three backquotes, have no white space at either end
  and not end in a semicolon. Put before it optional white space, an optional opening fence
  (three backquotes, with or without \<open>sql\<close>) and optional white space; put after it an
  optional semicolon at once, then optional white space, an optional closing fence and
  optional white space. Unless a bare opening fence touches an \<open>s\<close> that starts with
  \<open>sql\<close>, cleaning the wrapped text returns \<open>s\<close>.
\<close>

theorem C6_clean_roundtrip:
  assumes nofence: "\<not> contains s fence" and trimmed: "strip s = s"
    and noterm: "\<not> endswith s '';''"
    and opn: "opn \<in> {[], fence, fence @ ''sql''}" and cls: "cls \<in> {[], fence}"
    and trm: "trm \<in> {[], '';''}"
    and w0: "list_all is_space w0" and w1: "list_all is_space w1"
    and w2: "list_all is_space w2" and w3: "list_all is_space w3"
    and abut: "\<not> (opn = fence \<and> w1 = [] \<and> startswith s ''sql'')"
  shows "clean_sql_query (w0 @ opn @ w1 @ s @ trm @ w2 @ cls @ w3) = s"
proof -
  let ?rest = "trm @ w2 @ cls @ w3"
  let ?out = "w1 @ s @ trm @ w2 @ w3"
  have tail: "sub_fences (s @ ?rest) = s @ trm @ w2 @ w3"
    by (rule sub_fences_tail [OF nofence trm cls w2 w3])
  have inner: "sub_fences (w1 @ s @ ?rest) = ?out"
    using sub_fences_plain [OF spaces_plain [OF w1], of "s @ ?rest"] tail by simp
  have opened: "sub_fences (opn @ w1 @ s @ ?rest) = ?out"
  proof (cases "opn = []")
    case True
    with inner show ?thesis by simp
  next
    case False
    note ne = this
    show ?thesis
    proof (cases "opn = fence")
      case True
      have "\<not> startswith (w1 @ s @ ?rest) ''sql''"
      proof (cases "w1 = []")
        case False
        with spaces_no_sql [OF w1, of "s @ ?rest"] show ?thesis by simp
      next
        case True
        with abut \<open>opn = fence\<close> have "\<not> startswith s ''sql''" by simp
        from no_sql_append [OF this rest_head [OF trm cls w2 w3]] True show ?thesis by simp
      qed
      from sub_fences_head [OF this] True inner show ?thesis by simp
    next
      case False
      with ne opn have "opn = fence @ ''sql''" by simp
      then show ?thesis using sub_fences_head_sql [of "w1 @ s @ ?rest"] inner by simp
    qed
  qed
  have subbed: "sub_fences (w0 @ opn @ w1 @ s @ ?rest) = (w0 @ w1) @ (s @ trm) @ (w2 @ w3)"
    using sub_fences_plain [OF spaces_plain [OF w0], of "opn @ w1 @ s @ ?rest"] opened by simp
  have st: "strip (s @ trm) = s @ trm"
    using trm trimmed strip_with_terminator [OF trimmed] by auto
  have "list_all is_space (w0 @ w1)" and "list_all is_space (w2 @ w3)"
    using w0 w1 w2 w3 by simp_all
  from strip_wrap [OF this st]
  have stripped: "strip (sub_fences (w0 @ opn @ w1 @ s @ ?rest)) = s @ trm"
    by (simp only: subbed)
  show ?thesis
  proof (cases "trm = []")
    case True
    with stripped noterm show ?thesis by (simp add: clean_sql_query_def Let_def)
  next
    case False
    with trm have t: "trm = '';''" by simp
    show ?thesis using stripped endswith_terminator [of s]
      by (simp add: clean_sql_query_def Let_def t)
  qed
qed

theorem C6_witness:
  "clean_sql_query (fence @ ''sql'' @ [CHR 0x0A] @ ''SELECT count(*) FROM sessions'' @ '';''
      @ [CHR 0x0A] @ fence) = ''SELECT count(*) FROM sessions''"
proof -
  let ?s = "''SELECT count(*) FROM sessions''"
  have 1: "\<not> contains ?s fence" by code_simp
  have 2: "strip ?s = ?s" by code_simp
  have 3: "\<not> endswith ?s '';''" by code_simp
  have 4: "fence @ ''sql'' \<in> {[], fence, fence @ ''sql''}" by simp
  have 5: "fence \<in> {[], fence}" by simp
  have 6: "'';'' \<in> {[], '';''}" by simp
  have 7: "list_all is_space []" by simp
  have 8: "list_all is_space [CHR 0x0A]" by (simp add: is_space_def)
  have 9: "\<not> (fence @ ''sql'' = fence \<and> [CHR 0x0A] = [] \<and> startswith ?s ''sql'')" by simp
  from C6_clean_roundtrip [OF 1 2 3 4 5 6 7 8 8 7 9] show ?thesis by simp
qed

subsection \<open>C7: unrecognised classifier replies\<close>

lemma case_letters_distinct: "distinct (lcase_letters @ ucase_letters)"
  by code_simp

lemma case_letters_length: "length lcase_letters = length ucase_letters"
  by code_simp

lemma sharp_s_no_letter: "CHR 0xDF \<notin> set (lcase_letters @ ucase_letters)"
  by code_simp

lemma map_of_zip_swap:
  assumes "length xs = length ys" and "distinct xs" and "distinct ys"
  shows "(map_of (zip xs ys) c = Some d) = (map_of (zip ys xs) d = Some c)"
proof -
  have "(map_of (zip xs ys) c = Some d) = ((c, d) \<in> set (zip xs ys))"
    using assms by (simp add: map_of_eq_Some_iff)
  also have "\<dots> = ((d, c) \<in> set (zip ys xs))"
    by (auto simp: in_set_zip)
  also have "\<dots> = (map_of (zip ys xs) d = Some c)"
    using assms by (simp add: map_of_eq_Some_iff)
  finally show ?thesis .
qed

lemma to_upper_Some:
  "(map_of (zip lcase_letters ucase_letters) c = Some d)
     = (map_of (zip ucase_letters lcase_letters) d = Some c)"
  using case_letters_distinct case_letters_length by (intro map_of_zip_swap) simp_all

lemma to_upper_None: "(map_of (zip lcase_letters ucase_letters) c = None) = (c \<notin> set lcase_letters)"
  by (rule map_of_zip_is_None [OF case_letters_length])

lemma to_lower_None: "(map_of (zip ucase_letters lcase_letters) c = None) = (c \<notin> set ucase_letters)"
  by (rule map_of_zip_is_None [OF case_letters_length [symmetric]])

lemma to_lower_SomeD:
  "map_of (zip ucase_letters lcase_letters) c = Some d \<Longrightarrow> c \<in> set ucase_letters \<and> d \<in> set lcase_letters"
  by (auto dest!: map_of_SomeD dest: set_zip_leftD set_zip_rightD)

lemma case_letters_disjoint: "c \<in> set lcase_letters \<Longrightarrow> c \<notin> set ucase_letters"
  using case_letters_distinct by auto

lemma upper_char_single:
  assumes "d \<in> set ucase_letters \<or> (d \<notin> set lcase_letters \<and> d \<noteq> CHR 0xDF)"
  shows "(upper_char c = [d]) = (lower_char c = lower_char d)"
proof (cases "d \<in> set ucase_letters")
  case True
  then obtain ld where ld: "map_of (zip ucase_letters lcase_letters) d = Some ld"
    using to_lower_None [of d] by (cases "map_of (zip ucase_letters lcase_letters) d") auto
  then have up: "map_of (zip lcase_letters ucase_letters) ld = Some d" by (simp add: to_upper_Some)
  have ldl: "ld \<in> set lcase_letters" using ld to_lower_SomeD by blast
  have d_no: "d \<notin> set lcase_letters" using True case_letters_disjoint by blast
  have ld_no: "ld \<notin> set ucase_letters" using ldl case_letters_disjoint by blast
  have sharp: "d \<noteq> CHR 0xDF" "ld \<noteq> CHR 0xDF" using True ldl sharp_s_no_letter by auto
  have l: "(upper_char c = [d]) = (c = ld \<or> c = d)"
  proof (cases "map_of (zip lcase_letters ucase_letters) c")
    case None
    then show ?thesis using sharp ldl d_no to_upper_None [of c]
      by (auto simp: upper_char_def)
  next
    case (Some e)
    have "(e = d) = (c = ld)" using Some up ld to_upper_Some [of c e] to_upper_Some [of c d] by auto
    moreover have "c \<noteq> d" using Some d_no to_upper_None [of c] by auto
    moreover have "c \<noteq> CHR 0xDF" using Some to_upper_None [of c] sharp_s_no_letter by auto
    ultimately show ?thesis using Some by (auto simp: upper_char_def)
  qed
  have r: "(lower_char c = lower_char d) = (c = ld \<or> c = d)"
  proof (cases "map_of (zip ucase_letters lcase_letters) c")
    case None
    then show ?thesis using ld ld_no to_lower_None [of c] True
      by (auto simp: lower_char_def)
  next
    case (Some e)
    have "(e = ld) = (c = d)"
      using Some ld up to_upper_Some [of e c] to_upper_Some [of ld c] to_upper_Some [of e d] by auto
    moreover have "c \<noteq> ld" using Some ld_no to_lower_SomeD by blast
    ultimately show ?thesis using Some ld by (auto simp: lower_char_def)
  qed
  from l r show ?thesis by simp
next
  case False
  with assms have d: "d \<notin> set lcase_letters" "d \<noteq> CHR 0xDF" by auto
  have ld: "lower_char d = d" using False to_lower_None [of d] by (simp add: lower_char_def)
  have l: "(upper_char c = [d]) = (c = d)"
  proof (cases "map_of (zip lcase_letters ucase_letters) c")
    case None
    then show ?thesis using d by (auto simp: upper_char_def)
  next
    case (Some e)
    have "e \<in> set ucase_letters" using Some to_upper_Some [of c e] to_lower_SomeD by blast
    then have "e \<noteq> d" using False by auto
    moreover have "c \<noteq> d" using Some d to_upper_None [of c] by auto
    ultimately show ?thesis using Some by (auto simp: upper_char_def)
  qed
  have r: "(lower_char c = d) = (c = d)"
  proof (cases "map_of (zip ucase_letters lcase_letters) c")
    case None
    then show ?thesis by (auto simp: lower_char_def)
  next
    case (Some e)
    have "e \<in> set lcase_letters" "c \<in> set ucase_letters" using Some to_lower_SomeD by blast+
    then have "e \<noteq> d" "c \<noteq> d" using d False by auto
    then show ?thesis using Some by (auto simp: lower_char_def)
  qed
  from l r ld show ?thesis by simp
qed

lemma upper_char_two: "(\<exists>d. upper_char c = [d]) \<or> (c = CHR 0xDF \<and> upper_char c = ''SS'')"
  by (auto simp: upper_char_def split: option.splits)

lemma upper_eq_lower_eq:
  assumes "\<forall>d \<in> set l. d \<in> set ucase_letters \<or> (d \<notin> set lcase_letters \<and> d \<noteq> CHR 0xDF)"
    and "\<not> contains l ''SS''"
  shows "(upper x = l) = (lower x = lower l)"
  using assms
proof (induction x arbitrary: l)
  case Nil
  then show ?case by (auto simp: upper_def lower_def)
next
  case (Cons c x)
  show ?case
  proof (cases l)
    case Nil
    have "upper_char c \<noteq> []" using upper_char_two [of c] by auto
    then show ?thesis using Nil by (simp add: upper_def lower_def)
  next
    case l: (Cons d l')
    have d: "d \<in> set ucase_letters \<or> (d \<notin> set lcase_letters \<and> d \<noteq> CHR 0xDF)"
      using Cons.prems(1) l by simp
    have tl: "\<forall>d \<in> set l'. d \<in> set ucase_letters \<or> (d \<notin> set lcase_letters \<and> d \<noteq> CHR 0xDF)"
      using Cons.prems(1) l by simp
    have no_ss: "\<not> startswith (d # l') ''SS''" and tl_ss: "\<not> contains l' ''SS''"
      using Cons.prems(2) l by simp_all
    note IH = Cons.IH [OF tl tl_ss]
    note ch = upper_char_single [OF d, of c]
    from upper_char_two [of c] show ?thesis
    proof
      assume "\<exists>e. upper_char c = [e]"
      then obtain e where e: "upper_char c = [e]" by blast
      have "(upper (c # x) = l) = (e = d \<and> upper x = l')"
        using e l by (simp add: upper_def)
      also have "\<dots> = (lower_char c = lower_char d \<and> lower x = lower l')"
        using ch e IH by simp
      also have "\<dots> = (lower (c # x) = lower l)" using l by (simp add: lower_def)
      finally show ?thesis .
    next
      assume s: "c = CHR 0xDF \<and> upper_char c = ''SS''"
      then have ss: "upper_char c = ''SS''" by blast
      then have "upper_char c \<noteq> [d]" by simp
      with ch have a: "lower_char c \<noteq> lower_char d" by simp
      have "upper (c # x) \<noteq> d # l'"
      proof
        assume "upper (c # x) = d # l'"
        then have "upper_char c @ upper x = d # l'" by (simp add: upper_def)
        then have "d # l' = ''SS'' @ upper x" unfolding ss by (rule sym)
        then have "startswith (d # l') ''SS''" by (simp add: startswith_def)
        with no_ss show False by simp
      qed
      then show ?thesis using a l by (simp add: lower_def)
    qed
  qed
qed

lemma labels_letters:
  "\<forall>l \<in> set CATEGORY_LABELS.
     (\<forall>d \<in> set l. d \<in> set ucase_letters \<or> (d \<notin> set lcase_letters \<and> d \<noteq> CHR 0xDF))
     \<and> \<not> contains l ''SS''"
  by code_simp

lemma upper_label_iff:
  "l \<in> set CATEGORY_LABELS \<Longrightarrow> (upper x = l) = (lower x = lower l)"
  using labels_letters by (intro upper_eq_lower_eq) auto

text \<open>
  C7: when the greeting shortcut does not apply and the remote call returns a response,
  whose first choice has the content \<open>content\<close> (the reply), \<open>classify_query\<close> returns a
  label of the fixed set: the trimmed, upper-cased content when that is one of the four
  labels, and \<open>DATA_QUESTION\<close> otherwise, in particular for an empty reply. It does not
  raise. Read without \<open>upper\<close>: a reply that, trimmed, is a label up to the case of its
  letters gives that label, and a reply that is none of the four in this sense gives
  \<open>DATA_QUESTION\<close>.
\<close>

theorem C7_unrecognised_reply_defaults:
  assumes no_greeting: "\<not> list_ex (contains (lower (user_query request))) GREETING_KEYWORDS"
    and reply: "create (classification_prompt (user_query request)) = Inr (content # others)"
  shows "(\<exists>lbl. fst (classify_query create request) = Inr lbl
           \<and> lbl \<in> set CATEGORY_LABELS
           \<and> lbl = (if upper (strip (content_or_empty content)) \<in> set CATEGORY_LABELS
                    then upper (strip (content_or_empty content)) else ''DATA_QUESTION'')
           \<and> (if strip (content_or_empty content) = [] then lbl = ''DATA_QUESTION'' else True))
       \<and> (\<forall>l \<in> set CATEGORY_LABELS.
             lower (strip (content_or_empty content)) = lower l
             \<longrightarrow> fst (classify_query create request) = Inr l)
       \<and> ((\<forall>l \<in> set CATEGORY_LABELS. lower (strip (content_or_empty content)) \<noteq> lower l)
             \<longrightarrow> fst (classify_query create request) = Inr ''DATA_QUESTION'')"
proof (intro conjI ballI impI)
  show "\<exists>lbl. fst (classify_query create request) = Inr lbl
           \<and> lbl \<in> set CATEGORY_LABELS
           \<and> lbl = (if upper (strip (content_or_empty content)) \<in> set CATEGORY_LABELS
                    then upper (strip (content_or_empty content)) else ''DATA_QUESTION'')
           \<and> (if strip (content_or_empty content) = [] then lbl = ''DATA_QUESTION'' else True)"
    using assms
    by (simp add: classify_query_def Let_def upper_Nil data_question_label empty_not_label)
next
  fix l
  assume l: "l \<in> set CATEGORY_LABELS"
    and same: "lower (strip (content_or_empty content)) = lower l"
  from same have "upper (strip (content_or_empty content)) = l"
    by (simp add: upper_label_iff [OF l])
  then show "fst (classify_query create request) = Inr l"
    using assms l by (simp add: classify_query_def Let_def)
next
  assume none: "\<forall>l \<in> set CATEGORY_LABELS. lower (strip (content_or_empty content)) \<noteq> lower l"
  have "upper (strip (content_or_empty content)) \<notin> set CATEGORY_LABELS"
  proof
    assume in_labels: "upper (strip (content_or_empty content)) \<in> set CATEGORY_LABELS"
    have "lower (strip (content_or_empty content))
            = lower (upper (strip (content_or_empty content)))"
      using upper_label_iff [OF in_labels, of "strip (content_or_empty content)"] by simp
    with none in_labels show False by blast
  qed
  then show "fst (classify_query create request) = Inr ''DATA_QUESTION''"
    using assms by (simp add: classify_query_def Let_def)
qed

theorem C7_witness:
  "fst (classify_query (\<lambda>p. Inr [Some '' greeting '', None])
      \<lparr>request_id = ''r1'', user_query = ''count users per platform'', previous_error = None\<rparr>)
     = Inr ''GREETING''
   \<and> fst (classify_query (\<lambda>p. Inr [Some ''Out_Of_Scope\<newline>''])
      \<lparr>request_id = ''r1'', user_query = ''count users per platform'', previous_error = None\<rparr>)
     = Inr ''OUT_OF_SCOPE''
   \<and> fst (classify_query (\<lambda>p. Inr [Some '' maybe data? '', None])
      \<lparr>request_id = ''r1'', user_query = ''count users per platform'', previous_error = None\<rparr>)
     = Inr ''DATA_QUESTION''
   \<and> fst (classify_query (\<lambda>p. Inr [None])
      \<lparr>request_id = ''r1'', user_query = ''count users per platform'', previous_error = None\<rparr>)
     = Inr ''DATA_QUESTION''"
proof -
  let ?req = "\<lparr>request_id = ''r1'', user_query = ''count users per platform'', previous_error = None\<rparr>"
  have 1: "\<not> list_ex (contains (lower (user_query ?req))) GREETING_KEYWORDS"
    by code_simp
  have a: "((\<lambda>p. Inr [Some '' greeting '', None]) :: chat_client)
             (classification_prompt (user_query ?req)) = Inr (Some '' greeting '' # [None])"
    by simp
  have b: "((\<lambda>p. Inr [Some ''Out_Of_Scope\<newline>'']) :: chat_client)
             (classification_prompt (user_query ?req)) = Inr (Some ''Out_Of_Scope\<newline>'' # [])"
    by simp
  have c: "((\<lambda>p. Inr [Some '' maybe data? '', None]) :: chat_client)
             (classification_prompt (user_query ?req)) = Inr (Some '' maybe data? '' # [None])"
    by simp
  have d: "((\<lambda>p. Inr [None]) :: chat_client)
             (classification_prompt (user_query ?req)) = Inr (None # [])"
    by simp
  have la: "''GREETING'' \<in> set CATEGORY_LABELS
      \<and> lower (strip (content_or_empty (Some '' greeting ''))) = lower ''GREETING''"
    by code_simp
  have lb: "''OUT_OF_SCOPE'' \<in> set CATEGORY_LABELS
      \<and> lower (strip (content_or_empty (Some ''Out_Of_Scope\<newline>''))) = lower ''OUT_OF_SCOPE''"
    by code_simp
  have lc: "\<forall>l \<in> set CATEGORY_LABELS. lower (strip (content_or_empty (Some '' maybe data? ''))) \<noteq> lower l"
    by code_simp
  have ld: "\<forall>l \<in> set CATEGORY_LABELS. lower (strip (content_or_empty None)) \<noteq> lower l"
    by code_simp
  from C7_unrecognised_reply_defaults [OF 1 a] la
  have A: "fst (classify_query (\<lambda>p. Inr [Some '' greeting '', None]) ?req) = Inr ''GREETING''"
    by blast
  from C7_unrecognised_reply_defaults [OF 1 b] lb
  have B: "fst (classify_query (\<lambda>p. Inr [Some ''Out_Of_Scope\<newline>'']) ?req) = Inr ''OUT_OF_SCOPE''"
    by blast
  from C7_unrecognised_reply_defaults [OF 1 c] lc
  have C: "fst (classify_query (\<lambda>p. Inr [Some '' maybe data? '', None]) ?req) = Inr ''DATA_QUESTION''"
    by blast
  from C7_unrecognised_reply_defaults [OF 1 d] ld
  have D: "fst (classify_query (\<lambda>p. Inr [None]) ?req) = Inr ''DATA_QUESTION''"
    by blast
  from A B C D show ?thesis by blast
qed

subsection \<open>C10: the greeting shortcut matches inside words\<close>

text \<open>
  C10: there is a well-formed request, none of whose words is a greeting keyword, for
  which \<open>classify_query\<close> returns \<open>GREETING\<close> whatever the remote service would answer and
  sends no prompt to it: the text \<open>which videos have the most views\<close> contains \<open>hi\<close>.
\<close>

theorem C10_substring_greeting:
  "\<exists>request. mk_QueryRequest ''r1'' ''which videos have the most views'' = Inr request
      \<and> \<not> has_greeting_word (user_query request)
      \<and> (\<forall>create. classify_query create request = (Inr ''GREETING'', []))"
proof -
  let ?req = "\<lparr>request_id = ''r1'', user_query = ''which videos have the most views'', previous_error = None\<rparr>"
  have 1: "mk_QueryRequest ''r1'' ''which videos have the most views'' = Inr ?req"
    by code_simp
  have 2: "\<not> has_greeting_word (user_query ?req)"
    by code_simp
  have 3: "list_ex (contains (lower (user_query ?req))) GREETING_KEYWORDS"
    by code_simp
  have 4: "classify_query create ?req = (Inr ''GREETING'', [])" for create
    using 3 by (simp add: classify_query_def Let_def)
  from 1 2 4 show ?thesis by blast
qed

subsection \<open>C9: the row count of a constructed result\<close>

text \<open>
  C9 as stated fails: a \<open>row_count\<close> of \<open>0\<close> supplied explicitly together with one row is
  not kept; the validator replaces it by the number of rows.
\<close>

theorem C9_explicit_zero_not_kept:
  "row_count (mk_QueryResult ''q1'' ''SELECT 1'' [''row''] [''c''] (Some 0) None False) \<noteq> 0"
  by (simp add: mk_QueryResult_def default_row_count_def)

text \<open>
  C9 (amended): for every constructed \<open>QueryResult\<close>, \<open>row_count\<close> equals \<open>len(rows)\<close>
  when no value or the value \<open>0\<close> was supplied, and equals the supplied value when that
  value is not \<open>0\<close>.
\<close>

theorem C9_row_count:
  "row_count (mk_QueryResult qid q rs cols rc ms c) =
     (case rc of None \<Rightarrow> int (length rs)
               | Some v \<Rightarrow> if v = 0 then int (length rs) else v)"
  by (simp add: mk_QueryResult_def default_row_count_def split: option.split)

subsection \<open>C8: the response for an executed query\<close>

lemma append_rows_eq:
  "append_rows f i rs out =
     out @ map (\<lambda>k. str_int (i + int k) @ ''. '' @ f (rs ! k)) [0..<length rs]"
proof (induction rs arbitrary: i out)
  case Nil
  then show ?case by simp
next
  case (Cons r rs)
  have "map (\<lambda>k. str_int (i + int k) @ ''. '' @ f ((r # rs) ! k)) [0..<length (r # rs)] =
          (str_int i @ ''. '' @ f r) #
          map (\<lambda>k. str_int (i + 1 + int k) @ ''. '' @ f (rs ! k)) [0..<length rs]"
    by (simp add: map_upt_Suc ac_simps del: upt_Suc)
  with Cons.IH [of "i + 1" "out @ [str_int i @ ''. '' @ f r]"] show ?case by simp
qed

lemma preview_lines:
  "0 \<le> m \<Longrightarrow>
   map (\<lambda>k. str_int (1 + int k) @ ''. '' @ f (slice_to rs m ! k)) [0..<length (slice_to rs m)] =
   map (\<lambda>k. str_int (int k + 1) @ ''. '' @ f (rs ! k)) [0..<min (length rs) (nat m)]"
  by (simp add: slice_to_def add.commute cong: map_cong)

lemma success_response_eq:
  assumes limit: "0 \<le> max_results_display cfg"
    and counted: "row_count result = int (length (rows result))"
  shows "format_success_response cfg str_row q result =
     (if rows result = []
      then ''Generated SQL Query:'' @ [CHR 0x0A, CHR 0x0A] @ q @ [CHR 0x0A, CHR 0x0A]
             @ ''No results were returned.''
      else join_lines
        ([''Generated SQL Query:'', [], q, [], results_header (int (length (rows result))), []]
         @ map (\<lambda>k. str_int (int k + 1) @ ''. '' @ str_row (rows result ! k))
             [0..<min (length (rows result)) (nat (max_results_display cfg))]
         @ (if int (length (rows result)) > max_results_display cfg
            then [[], ''... and ''
                      @ str_int (int (length (rows result)) - max_results_display cfg)
                      @ '' more row(s).'']
            else [])))"
proof (cases "rows result = []")
  case True
  then show ?thesis by (simp add: format_success_response_def)
next
  case False
  let ?m = "max_results_display cfg"
  have len: "int (length (slice_to (rows result) ?m)) = min (int (length (rows result))) ?m"
    using limit by (auto simp add: slice_to_def min_def)
  have rem: "row_count result - int (length (slice_to (rows result) ?m)) > 0
               \<longleftrightarrow> int (length (rows result)) > ?m"
    using len counted by (simp add: min_def)
  have amount: "int (length (rows result)) > ?m \<Longrightarrow>
      row_count result - int (length (slice_to (rows result) ?m)) = int (length (rows result)) - ?m"
    using len counted by (simp add: min_def)
  have numbered: "append_rows str_row 1 (slice_to (rows result) ?m) header =
      header @ map (\<lambda>k. str_int (int k + 1) @ ''. '' @ str_row (rows result ! k))
                 [0..<min (length (rows result)) (nat ?m)]" for header
    unfolding append_rows_eq preview_lines [OF limit] ..
  show ?thesis
    using False counted rem amount
    by (simp add: format_success_response_def Let_def numbered)
qed

lemma execute_sync_row_count:
  "fst (execute_sync drv db q qid ms) = Inr result \<Longrightarrow> row_count result = int (length (rows result))"
  by (auto simp: execute_sync_def mk_QueryResult_def default_row_count_def Let_def
      split: prod.splits option.splits sum.splits)

lemma execute_row_count:
  "fst (execute cfg drv db q qid ms) = Inr result \<Longrightarrow> row_count result = int (length (rows result))"
  by (auto simp: execute_def execute_sync_row_count mk_QueryResult_def default_row_count_def
      split: if_splits)

text \<open>
  C8 as stated fails: the configuration accepts any integer as \<open>max_results_display\<close>. With
  the maximum \<open>-1\<close> and an executed query of three rows, the slice \<open>rows[:-1]\<close> keeps two
  rows and the response lists both, more than the maximum.
\<close>

theorem C8_negative_maximum:
  "fst (execute \<lparr>max_results_display = - 1, execute_queries = True\<rparr>
          \<lparr>connect = Inr 1, open_cursor = (\<lambda>c. Inr 1),
            cursor_execute = (\<lambda>q. Inr (Some [''x''])),
            fetchall = (\<lambda>q. Inr [[''a''], [''b''], [''c'']])\<rparr>
          new_DatabaseManager ''SELECT x FROM t'' ''q1'' 7)
     = Inr \<lparr>query_id = ''q1'', sql = ''SELECT x FROM t'',
            rows = [[(''x'', ''a'')], [(''x'', ''b'')], [(''x'', ''c'')]], result_columns = [''x''],
            row_count = 3, execution_ms = Some 7, cached = False\<rparr>
   \<and> format_success_response \<lparr>max_results_display = - 1, execute_queries = True\<rparr>
       (\<lambda>row. concat (map snd row)) ''SELECT x FROM t''
       \<lparr>query_id = ''q1'', sql = ''SELECT x FROM t'',
        rows = [[(''x'', ''a'')], [(''x'', ''b'')], [(''x'', ''c'')]], result_columns = [''x''],
        row_count = 3, execution_ms = Some 7, cached = False\<rparr>
     = ''Generated SQL Query:\<newline>\<newline>SELECT x FROM t\<newline>\<newline>Results (3 rows):\<newline>\<newline>1. a\<newline>2. b\<newline>\<newline>... and 1 more row(s).''"
  by code_simp

text \<open>
  C8 (amended): let the configured maximum be non-negative and let \<open>execute\<close> return a
  result for the SQL. With no rows the response is the SQL under its heading followed by the
  no-results sentence, with no row list. Otherwise it is the heading, the SQL and the results
  header, then one line for each of the first \<open>min (len rows) max\<close> rows, numbered from 1 in
  order, and it ends with the note giving \<open>len rows - max\<close> remaining rows exactly when the
  number of rows, which is \<open>row_count\<close>, exceeds the maximum.
\<close>

theorem C8_success_response:
  assumes limit: "0 \<le> max_results_display cfg"
    and executed: "fst (execute cfg drv db q qid ms) = Inr result"
  shows "format_success_response cfg str_row q result =
     (if rows result = []
      then ''Generated SQL Query:'' @ [CHR 0x0A, CHR 0x0A] @ q @ [CHR 0x0A, CHR 0x0A]
             @ ''No results were returned.''
      else join_lines
        ([''Generated SQL Query:'', [], q, [], results_header (int (length (rows result))), []]
         @ map (\<lambda>k. str_int (int k + 1) @ ''. '' @ str_row (rows result ! k))
             [0..<min (length (rows result)) (nat (max_results_display cfg))]
         @ (if int (length (rows result)) > max_results_display cfg
            then [[], ''... and ''
                      @ str_int (int (length (rows result)) - max_results_display cfg)
                      @ '' more row(s).'']
            else [])))"
  by (rule success_response_eq [OF limit execute_row_count [OF executed]])

theorem C8_witness:
  "format_success_response \<lparr>max_results_display = 2, execute_queries = True\<rparr>
     (\<lambda>row. concat (map snd row)) ''SELECT x FROM t''
     \<lparr>query_id = ''q1'', sql = ''SELECT x FROM t'',
      rows = [[(''x'', ''a'')], [(''x'', ''b'')], [(''x'', ''c'')]], result_columns = [''x''],
      row_count = 3, execution_ms = Some 7, cached = False\<rparr>
   = ''Generated SQL Query:\<newline>\<newline>SELECT x FROM t\<newline>\<newline>Results (3 rows):\<newline>\<newline>1. a\<newline>2. b\<newline>\<newline>... and 1 more row(s).''"
proof -
  let ?cfg = "\<lparr>max_results_display = 2, execute_queries = True\<rparr>"
  let ?drv = "\<lparr>connect = Inr 1, open_cursor = (\<lambda>c. Inr 1),
               cursor_execute = (\<lambda>q. Inr (Some [''x''])),
               fetchall = (\<lambda>q. Inr [[''a''], [''b''], [''c'']])\<rparr>"
  let ?res = "\<lparr>query_id = ''q1'', sql = ''SELECT x FROM t'',
      rows = [[(''x'', ''a'')], [(''x'', ''b'')], [(''x'', ''c'')]], result_columns = [''x''],
      row_count = 3, execution_ms = Some 7, cached = False\<rparr>"
  have 1: "0 \<le> max_results_display ?cfg" by simp
  have 2: "fst (execute ?cfg ?drv new_DatabaseManager ''SELECT x FROM t'' ''q1'' 7) = Inr ?res"
    by code_simp
  have 3: "(if rows ?res = []
      then ''Generated SQL Query:'' @ [CHR 0x0A, CHR 0x0A] @ ''SELECT x FROM t'' @ [CHR 0x0A, CHR 0x0A]
             @ ''No results were returned.''
      else join_lines
        ([''Generated SQL Query:'', [], ''SELECT x FROM t'', [], results_header (int (length (rows ?res))), []]
         @ map (\<lambda>k. str_int (int k + 1) @ ''. '' @ (\<lambda>row. concat (map snd row)) (rows ?res ! k))
             [0..<min (length (rows ?res)) (nat (max_results_display ?cfg))]
         @ (if int (length (rows ?res)) > max_results_display ?cfg
            then [[], ''... and ''
                      @ str_int (int (length (rows ?res)) - max_results_display ?cfg)
                      @ '' more row(s).'']
            else [])))
   = ''Generated SQL Query:\<newline>\<newline>SELECT x FROM t\<newline>\<newline>Results (3 rows):\<newline>\<newline>1. a\<newline>2. b\<newline>\<newline>... and 1 more row(s).''"
    by code_simp
  from C8_success_response [OF 1 2, of "\<lambda>row. concat (map snd row)"] 3
  show ?thesis by (rule trans)
qed

subsection \<open>C2: the exceptions of \<open>execute\<close>\<close>

lemma execution_handler_Exception:
  "is_Exception exc \<Longrightarrow> execution_handler exc = QueryExecutionError (str_exn exc)"
  by (cases exc) simp_all

lemma ensure_connection_fails:
  assumes "connection db = None \<or> cursor db = None" and "connect drv = Inl exc"
  shows "ensure_connection drv db = (Some (connection_handler exc), db)"
  using assms by (auto simp: ensure_connection_def)

lemma execution_handler_not_connection:
  "execution_handler exc \<noteq> DatabaseConnectionError m"
  by (cases exc) simp_all

lemma execute_sync_not_connection:
  "fst (execute_sync drv db sql_text qid ms) \<noteq> Inl (DatabaseConnectionError m)"
  by (auto simp: execute_sync_def execution_handler_not_connection Let_def
      split: prod.splits option.splits sum.splits)

text \<open>
  C2: with execution enabled, an exception of the driver while the connection is established
  leaves \<open>execute\<close> as \<open>QueryExecutionError\<close> with the driver's message, not as
  \<open>DatabaseConnectionError\<close>: \<open>_ensure_connection\<close> raises \<open>DatabaseConnectionError\<close> inside
  the \<open>try\<close> of \<open>_execute_sync\<close>, whose \<open>except Exception\<close> clause catches it and raises
  \<open>QueryExecutionError\<close>. An exception of \<open>cursor.execute\<close> on an open connection is raised
  as \<open>QueryExecutionError\<close> too, and \<open>DatabaseConnectionError\<close> never leaves \<open>execute\<close>.
\<close>

theorem C2_execute_errors:
  assumes enabled: "execute_queries cfg"
  shows "((connection db = None \<or> cursor db = None) \<and> connect drv = Inl exc \<and> is_Exception exc
            \<longrightarrow> fst (execute cfg drv db sql_text qid ms) = Inl (QueryExecutionError (str_exn exc)))
       \<and> (connection db \<noteq> None \<and> cursor db \<noteq> None \<and> cursor_execute drv sql_text = Inl exc
            \<and> is_Exception exc
            \<longrightarrow> fst (execute cfg drv db sql_text qid ms) = Inl (QueryExecutionError (str_exn exc)))
       \<and> fst (execute cfg drv db sql_text qid ms) \<noteq> Inl (DatabaseConnectionError m)"
proof (intro conjI impI)
  assume a: "(connection db = None \<or> cursor db = None) \<and> connect drv = Inl exc \<and> is_Exception exc"
  then have "connection_handler exc = DatabaseConnectionError (str_exn exc)"
    by (simp add: connection_handler_def)
  then have "ensure_connection drv db = (Some (DatabaseConnectionError (str_exn exc)), db)"
    using ensure_connection_fails [of db drv exc] a by simp
  then show "fst (execute cfg drv db sql_text qid ms) = Inl (QueryExecutionError (str_exn exc))"
    using enabled by (simp add: execute_def execute_sync_def)
next
  assume a: "connection db \<noteq> None \<and> cursor db \<noteq> None \<and> cursor_execute drv sql_text = Inl exc
            \<and> is_Exception exc"
  then have "ensure_connection drv db = (None, db)" by (simp add: ensure_connection_def)
  then show "fst (execute cfg drv db sql_text qid ms) = Inl (QueryExecutionError (str_exn exc))"
    using enabled a execution_handler_Exception [of exc]
    by (auto simp: execute_def execute_sync_def)
next
  show "fst (execute cfg drv db sql_text qid ms) \<noteq> Inl (DatabaseConnectionError m)"
    using enabled execute_sync_not_connection [of drv db sql_text qid ms m]
    by (simp add: execute_def)
qed

theorem C2_connection_failure_raises_execution_error:
  "fst (execute \<lparr>max_results_display = 5, execute_queries = True\<rparr>
          \<lparr>connect = Inl (OtherException ''connection refused''), open_cursor = (\<lambda>c. Inr 1),
            cursor_execute = (\<lambda>q. Inr None), fetchall = (\<lambda>q. Inr ([] :: nat list list))\<rparr>
          new_DatabaseManager ''SELECT 1'' ''q1'' 0)
     = Inl (QueryExecutionError ''connection refused'')"
proof -
  let ?cfg = "\<lparr>max_results_display = 5, execute_queries = True\<rparr>"
  let ?drv = "\<lparr>connect = Inl (OtherException ''connection refused''), open_cursor = (\<lambda>c. Inr 1),
            cursor_execute = (\<lambda>q. Inr None), fetchall = (\<lambda>q. Inr ([] :: nat list list))\<rparr>"
  have 1: "execute_queries ?cfg" by simp
  have 2: "(connection new_DatabaseManager = None \<or> cursor new_DatabaseManager = None)
            \<and> connect ?drv = Inl (OtherException ''connection refused'')
            \<and> is_Exception (OtherException ''connection refused'')"
    by (simp add: new_DatabaseManager_def)
  from C2_execute_errors [OF 1, of new_DatabaseManager ?drv "OtherException ''connection refused''"
      "''SELECT 1''" "''q1''" 0] 2
  show ?thesis by simp
qed

subsection \<open>C3: concurrent callers of \<open>get_schema\<close>\<close>

lemma get_schema_loaded:
  "loaded_schema db = Some schema \<Longrightarrow> get_schema disk db = (Inr schema, db)"
  by (simp add: get_schema_def)

lemma get_schema_calls_loaded:
  "loaded_schema db = Some schema \<Longrightarrow> get_schema_calls disk n db = (replicate n (Inr schema), db)"
  by (induction n) (simp_all add: get_schema_loaded replicate_app_Cons_same)

lemma get_schema_success:
  assumes "loaded_schema db = None" and "disk (loads db) = Inr schema"
  shows "get_schema disk db =
           (Inr schema, db\<lparr>loaded_schema := Some schema, schema_loaded := True,
                           loads := Suc (loads db)\<rparr>)"
  using assms by (simp add: get_schema_def)

lemma get_schema_failure:
  assumes "loaded_schema db = None" and "disk (loads db) = Inl exc"
  shows "get_schema disk db = (Inl exc, db\<lparr>loads := Suc (loads db)\<rparr>)"
  using assms by (simp add: get_schema_def)

lemma get_schema_calls_all_fail:
  assumes "loaded_schema db = None" and "\<forall>k<n. disk (loads db + k) = Inl (e k)"
  shows "get_schema_calls disk n db = (map (\<lambda>k. Inl (e k)) [0..<n], db\<lparr>loads := loads db + n\<rparr>)"
  using assms
proof (induction n arbitrary: db e)
  case 0
  then show ?case by simp
next
  case (Suc n)
  let ?db = "db\<lparr>loads := Suc (loads db)\<rparr>"
  from Suc.prems(2) have first: "disk (loads db) = Inl (e 0)" by (metis add.right_neutral zero_less_Suc)
  have step: "get_schema disk db = (Inl (e 0), ?db)"
    by (rule get_schema_failure [where disk = disk, OF Suc.prems(1) first])
  have l: "loaded_schema ?db = None" using Suc.prems(1) by simp
  have r: "\<forall>k<n. disk (loads ?db + k) = Inl (e (Suc k))"
    using Suc.prems(2) by auto
  from Suc.IH [OF l r]
  have "get_schema_calls disk n ?db =
          (map (\<lambda>k. Inl (e (Suc k))) [0..<n], db\<lparr>loads := Suc (loads db) + n\<rparr>)"
    by simp
  then show ?case using step by (simp add: map_upt_Suc del: upt_Suc)
qed

text \<open>
  C3 as stated fails: a failed load is not kept, so with a schema file that is missing two
  callers run two loads.
\<close>

theorem C3_two_callers_two_loads:
  "loads (snd (get_schema_calls missing_file 2 new_DatabaseManager)) = 2"
  by code_simp

text \<open>
  C3 (amended): \<open>n > 0\<close> callers invoke \<open>get_schema\<close> on a manager with no schema loaded;
  the lock runs their bodies one after the other. When the first load succeeds, exactly one
  load runs and every caller receives that catalog. When the loads fail, each caller runs a
  load of its own and receives the failure of that load, \<open>n\<close> loads in all.
\<close>

theorem C3_serialised_callers:
  assumes unloaded: "loaded_schema db = None" and callers: "0 < n"
  shows "(disk (loads db) = Inr schema \<longrightarrow>
            fst (get_schema_calls disk n db) = replicate n (Inr schema)
            \<and> loads (snd (get_schema_calls disk n db)) = loads db + 1)
       \<and> ((\<forall>k<n. disk (loads db + k) = Inl (e k)) \<longrightarrow>
            fst (get_schema_calls disk n db) = map (\<lambda>k. Inl (e k)) [0..<n]
            \<and> loads (snd (get_schema_calls disk n db)) = loads db + n)"
proof (intro conjI impI)
  assume ok: "disk (loads db) = Inr schema"
  from callers obtain m where n: "n = Suc m" by (cases n) auto
  let ?db = "db\<lparr>loaded_schema := Some schema, schema_loaded := True, loads := Suc (loads db)\<rparr>"
  have rest: "get_schema_calls disk m ?db = (replicate m (Inr schema), ?db)"
    by (rule get_schema_calls_loaded) simp
  have all: "get_schema_calls disk n db = (replicate n (Inr schema), ?db)"
    using get_schema_success [where disk = disk, OF unloaded ok] rest n by simp
  show "fst (get_schema_calls disk n db) = replicate n (Inr schema)" using all by simp
  show "loads (snd (get_schema_calls disk n db)) = loads db + 1" using all by simp
next
  assume bad: "\<forall>k<n. disk (loads db + k) = Inl (e k)"
  note all = get_schema_calls_all_fail [OF unloaded bad]
  show "fst (get_schema_calls disk n db) = map (\<lambda>k. Inl (e k)) [0..<n]" using all by simp
  show "loads (snd (get_schema_calls disk n db)) = loads db + n" using all by simp
qed

theorem C3_witness:
  "fst (get_schema_calls (\<lambda>k. Inr \<lparr>tables = []\<rparr>) 3 new_DatabaseManager)
     = replicate 3 (Inr \<lparr>tables = []\<rparr>)
   \<and> loads (snd (get_schema_calls (\<lambda>k. Inr \<lparr>tables = []\<rparr>) 3 new_DatabaseManager)) = 1
   \<and> fst (get_schema_calls missing_file 3 new_DatabaseManager)
       = replicate 3 (Inl (SchemaLoadError ''Schema file not found: data/mapping.json''))
   \<and> loads (snd (get_schema_calls missing_file 3 new_DatabaseManager)) = 3"
proof -
  have u: "loaded_schema new_DatabaseManager = None" by (simp add: new_DatabaseManager_def)
  have l: "loads new_DatabaseManager = 0" by (simp add: new_DatabaseManager_def)
  have n: "0 < (3 :: nat)" by simp
  note ok = C3_serialised_callers [where db = new_DatabaseManager and n = 3
      and disk = "\<lambda>k. Inr \<lparr>tables = []\<rparr>" and schema = "\<lparr>tables = []\<rparr>"
      and e = "\<lambda>k. SchemaLoadError []", OF u n]
  note bad = C3_serialised_callers [where db = new_DatabaseManager and n = 3
      and disk = missing_file and schema = "\<lparr>tables = []\<rparr>"
      and e = "\<lambda>k. SchemaLoadError ''Schema file not found: data/mapping.json''", OF u n]
  have r: "map (\<lambda>k. Inl (SchemaLoadError ''Schema file not found: data/mapping.json''))
             [0..<3] = (replicate 3 (Inl (SchemaLoadError ''Schema file not found: data/mapping.json''))
                 :: (exn + SchemaCatalog) list)"
    by (simp add: numeral_3_eq_3)
  from ok bad show ?thesis by (simp add: l missing_file_def r)
qed

subsection \<open>C4: waiting for the schema\<close>

lemma wait_loaded:
  "schema_loaded db \<Longrightarrow> loaded_schema db = Some schema
     \<Longrightarrow> wait_for_schema disk n db = Some (Inr schema)"
  by (cases n) simp_all

lemma wait_first_success:
  assumes "loaded_schema db = None" and "\<not> schema_loaded db"
    and "\<forall>j<k. isl (disk (loads db + j))" and "disk (loads db + k) = Inr schema" and "k < n"
  shows "wait_for_schema disk n db = Some (Inr schema)"
  using assms
proof (induction k arbitrary: n db)
  case 0
  then obtain m where n: "n = Suc m" by (cases n) auto
  from 0 have ok: "disk (loads db) = Inr schema" by simp
  show ?case
    using "0.prems"(2) n get_schema_success [where disk = disk, OF "0.prems"(1) ok]
    by (simp add: wait_loaded)
next
  case (Suc k)
  then obtain m where n: "n = Suc m" and km: "k < m" by (cases n) auto
  from Suc.prems(3) have "isl (disk (loads db))" by (metis add.right_neutral zero_less_Suc)
  then obtain exc where bad: "disk (loads db) = Inl exc" by (cases "disk (loads db)") auto
  let ?db = "db\<lparr>loads := Suc (loads db)\<rparr>"
  have step: "get_schema disk db = (Inl exc, ?db)"
    by (rule get_schema_failure [where disk = disk, OF Suc.prems(1) bad])
  have a: "loaded_schema ?db = None" and b: "\<not> schema_loaded ?db"
    using Suc.prems(1,2) by simp_all
  have c: "\<forall>j<k. isl (disk (loads ?db + j))" using Suc.prems(3) by auto
  have d: "disk (loads ?db + k) = Inr schema" using Suc.prems(4) by simp
  from Suc.IH [OF a b c d km] show ?case using Suc.prems(2) n step by simp
qed

lemma wait_never_raises:
  assumes "schema_loaded db \<longrightarrow> loaded_schema db \<noteq> None"
  shows "wait_for_schema disk n db \<noteq> Some (Inl exc)"
  using assms
proof (induction n arbitrary: db)
  case 0
  then show ?case by (auto split: option.splits)
next
  case (Suc n)
  show ?case
  proof (cases "schema_loaded db")
    case True
    with Suc.prems show ?thesis by (auto split: option.splits)
  next
    case False
    have "schema_loaded (snd (get_schema disk db)) \<longrightarrow> loaded_schema (snd (get_schema disk db)) \<noteq> None"
      using Suc.prems by (auto simp: get_schema_def split: option.splits sum.splits)
    from Suc.IH [OF this] False show ?thesis by simp
  qed
qed

lemma wait_all_fail:
  assumes "loaded_schema db = None" and "\<not> schema_loaded db"
    and "\<forall>j<n. isl (disk (loads db + j))"
  shows "wait_for_schema disk n db = None"
  using assms
proof (induction n arbitrary: db)
  case 0
  then show ?case by simp
next
  case (Suc n)
  from Suc.prems(3) have "isl (disk (loads db))" by (metis add.right_neutral zero_less_Suc)
  then obtain exc where bad: "disk (loads db) = Inl exc" by (cases "disk (loads db)") auto
  let ?db = "db\<lparr>loads := Suc (loads db)\<rparr>"
  have step: "get_schema disk db = (Inl exc, ?db)"
    by (rule get_schema_failure [where disk = disk, OF Suc.prems(1) bad])
  have a: "loaded_schema ?db = None" and b: "\<not> schema_loaded ?db"
    using Suc.prems(1,2) by simp_all
  have c: "\<forall>j<n. isl (disk (loads ?db + j))" using Suc.prems(3) by auto
  from Suc.IH [OF a b c] show ?case using Suc.prems(2) step by simp
qed

text \<open>
  C4: on a manager with no schema loaded and the event not set, \<open>wait_for_schema\<close> does not
  return as long as every load fails among the \<open>n\<close> calls of \<open>get_schema\<close> made meanwhile,
  in particular when no call is made at all (\<open>n = 0\<close>); when the first \<open>k < n\<close> loads fail
  and the next one succeeds, it returns the catalog of that load. It never raises
  \<open>SchemaLoadError\<close>: the \<open>raise\<close> that follows the wait cannot be reached, since the
  event is set only after the catalog is stored.
\<close>

theorem C4_wait_for_schema:
  assumes unloaded: "loaded_schema db = None" and unset: "\<not> schema_loaded db"
  shows "((\<forall>j<n. isl (disk (loads db + j))) \<longrightarrow> wait_for_schema disk n db = None)
       \<and> ((\<forall>j<k. isl (disk (loads db + j))) \<and> disk (loads db + k) = Inr schema \<and> k < n
            \<longrightarrow> wait_for_schema disk n db = Some (Inr schema))
       \<and> wait_for_schema disk n db \<noteq> Some (Inl exc)"
proof (intro conjI impI)
  assume "\<forall>j<n. isl (disk (loads db + j))"
  then show "wait_for_schema disk n db = None"
    by (rule wait_all_fail [OF unloaded unset])
next
  assume "(\<forall>j<k. isl (disk (loads db + j))) \<and> disk (loads db + k) = Inr schema \<and> k < n"
  then show "wait_for_schema disk n db = Some (Inr schema)"
    using wait_first_success [OF unloaded unset] by blast
next
  show "wait_for_schema disk n db \<noteq> Some (Inl exc)"
    by (rule wait_never_raises) (simp add: unset)
qed

theorem C4_witness:
  "wait_for_schema missing_file 0 new_DatabaseManager = None
   \<and> wait_for_schema missing_file 3 new_DatabaseManager = None
   \<and> wait_for_schema (\<lambda>k. if k = 0 then missing_file 0 else Inr \<lparr>tables = []\<rparr>) 2
       new_DatabaseManager = Some (Inr \<lparr>tables = []\<rparr>)"
proof -
  have u: "loaded_schema new_DatabaseManager = None" by (simp add: new_DatabaseManager_def)
  have s: "\<not> schema_loaded new_DatabaseManager" by (simp add: new_DatabaseManager_def)
  have l: "loads new_DatabaseManager = 0" by (simp add: new_DatabaseManager_def)
  note none = C4_wait_for_schema [where db = new_DatabaseManager and n = 0 and k = 0
      and disk = missing_file and schema = "\<lparr>tables = []\<rparr>" and exc = "SchemaLoadError []", OF u s]
  note fail = C4_wait_for_schema [where db = new_DatabaseManager and n = 3 and k = 0
      and disk = missing_file and schema = "\<lparr>tables = []\<rparr>" and exc = "SchemaLoadError []", OF u s]
  note ok = C4_wait_for_schema [where db = new_DatabaseManager and n = 2 and k = 1
      and disk = "\<lambda>k. if k = 0 then missing_file 0 else Inr \<lparr>tables = []\<rparr>"
      and schema = "\<lparr>tables = []\<rparr>" and exc = "SchemaLoadError []", OF u s]
  have 1: "wait_for_schema missing_file 0 new_DatabaseManager = None" using none by simp
  have 2: "wait_for_schema missing_file 3 new_DatabaseManager = None"
    using fail by (simp add: l missing_file_def)
  have 3: "wait_for_schema (\<lambda>k. if k = 0 then missing_file 0 else Inr \<lparr>tables = []\<rparr>) 2
       new_DatabaseManager = Some (Inr \<lparr>tables = []\<rparr>)"
    using ok by (simp add: l missing_file_def)
  from 1 2 3 show ?thesis by blast
qed

subsection \<open>C1: the exceptions of \<open>process\<close>\<close>

lemma schema_stage_returns:
  "is_Exception exc \<Longrightarrow> \<forall>m. exc \<noteq> AttributeError m \<Longrightarrow> \<exists>text. on_schema_error exc = Inr text"
  by (cases exc) simp_all

lemma execution_stage_returns:
  "is_Exception exc \<Longrightarrow> \<exists>text. on_execution_error q exc = Inr text"
  by (cases exc) simp_all

lemma general_returns:
  assumes "\<forall>exc. ai_answer_general_question svc request = Inl exc
             \<longrightarrow> (\<exists>m. exc = QueryGenerationError m)"
  shows "\<exists>text. handle_general_question svc request = Inr text"
  using assms by (auto simp: handle_general_question_def split: sum.splits)

lemma data_returns:
  assumes sqlgen: "\<forall>schema exc. ai_generate_sql_query svc request schema = Inl exc
             \<longrightarrow> (\<exists>m. exc = QueryGenerationError m)"
    and sch: "\<forall>exc. database_get_schema svc = Inl exc
             \<longrightarrow> is_Exception exc \<and> (\<forall>m. exc \<noteq> AttributeError m)"
    and exe: "\<forall>q u i exc. database_execute svc q u i = Inl exc \<longrightarrow> is_Exception exc"
  shows "\<exists>text. handle_data_question cfg str_row svc request = Inr text"
proof (cases "database_get_schema svc")
  case (Inl exc)
  with sch schema_stage_returns [of exc] show ?thesis
    by (auto simp: handle_data_question_def)
next
  case schema: (Inr schema)
  show ?thesis
  proof (cases "ai_generate_sql_query svc request schema")
    case (Inl exc)
    with sqlgen obtain m where "exc = QueryGenerationError m" by blast
    with Inl schema show ?thesis by (simp add: handle_data_question_def)
  next
    case q: (Inr q)
    show ?thesis
    proof (cases "database_execute svc q (user_query request) (request_id request)")
      case (Inl exc)
      with exe have "is_Exception exc" by blast
      from execution_stage_returns [OF this, of q] Inl q schema show ?thesis
        by (simp add: handle_data_question_def)
    next
      case (Inr result)
      with q schema show ?thesis by (simp add: handle_data_question_def)
    qed
  qed
qed

text \<open>
  C1 as stated fails: an unexpected exception of the classification stage leaves \<open>process\<close>
  (only \<open>ClassificationError\<close> is caught there), and an unexpected exception of the schema
  stage gives another text than \<open>SchemaLoadError\<close> does.
\<close>

theorem C1_unexpected_error_not_typed_fallback:
  "process \<lparr>max_results_display = 5, execute_queries = True\<rparr> (\<lambda>row. row)
       (example_services (Inl (OtherException ''timeout'')) (Inr \<lparr>tables = []\<rparr>))
       \<lparr>request_id = ''r1'', user_query = ''top videos'', previous_error = None\<rparr>
     = Inl (OtherException ''timeout'')
   \<and> process \<lparr>max_results_display = 5, execute_queries = True\<rparr> (\<lambda>row. row)
       (example_services (Inr ''DATA_QUESTION'') (Inl (OtherException ''timeout'')))
       \<lparr>request_id = ''r1'', user_query = ''top videos'', previous_error = None\<rparr>
     \<noteq> process \<lparr>max_results_display = 5, execute_queries = True\<rparr> (\<lambda>row. row)
       (example_services (Inr ''DATA_QUESTION'') (Inl (SchemaLoadError ''timeout'')))
       \<lparr>request_id = ''r1'', user_query = ''top videos'', previous_error = None\<rparr>"
  by (simp add: process_def handle_data_question_def example_services_def
      schema_unexpected_def schema_load_failed_def)

text \<open>
  C1 (amended): \<open>process\<close> returns a text and raises nothing when the classification raises
  at most \<open>ClassificationError\<close>, the answering and the SQL generation raise at most
  \<open>QueryGenerationError\<close>, the schema retrieval raises at most subclasses of \<open>Exception\<close>
  other than \<open>AttributeError\<close>, and the execution raises at most subclasses of \<open>Exception\<close>.
  Each typed error gives the fallback text of its stage. Every other exception of the schema
  stage or of the execution stage is caught and gives that stage's text for unexpected
  errors, which differs from the text of its typed error.
\<close>

theorem C1_process_returns:
  assumes cls: "\<forall>exc. triage_classify_query svc request = Inl exc
             \<longrightarrow> (\<exists>m. exc = ClassificationError m)"
    and gen: "\<forall>exc. ai_answer_general_question svc request = Inl exc
             \<longrightarrow> (\<exists>m. exc = QueryGenerationError m)"
    and sqlgen: "\<forall>schema exc. ai_generate_sql_query svc request schema = Inl exc
             \<longrightarrow> (\<exists>m. exc = QueryGenerationError m)"
    and sch: "\<forall>exc. database_get_schema svc = Inl exc
             \<longrightarrow> is_Exception exc \<and> (\<forall>m. exc \<noteq> AttributeError m)"
    and exe: "\<forall>q u i exc. database_execute svc q u i = Inl exc \<longrightarrow> is_Exception exc"
  shows "(\<exists>text. process cfg str_row svc request = Inr text)
       \<and> (\<forall>m. triage_classify_query svc request = Inl (ClassificationError m)
            \<longrightarrow> process cfg str_row svc request = Inr classification_failed)
       \<and> (\<forall>category m. triage_classify_query svc request = Inr category
              \<and> category \<in> {''GREETING'', ''GENERAL_QUESTION''}
              \<and> ai_answer_general_question svc request = Inl (QueryGenerationError m)
            \<longrightarrow> process cfg str_row svc request = Inr general_failed)
       \<and> (\<forall>category exc. triage_classify_query svc request = Inr category
              \<and> category \<notin> {''OUT_OF_SCOPE'', ''GREETING'', ''GENERAL_QUESTION''}
              \<and> database_get_schema svc = Inl exc
            \<longrightarrow> process cfg str_row svc request
                  = Inr (if \<exists>m. exc = SchemaLoadError m then schema_load_failed
                         else schema_unexpected))
       \<and> (\<forall>category schema m. triage_classify_query svc request = Inr category
              \<and> category \<notin> {''OUT_OF_SCOPE'', ''GREETING'', ''GENERAL_QUESTION''}
              \<and> database_get_schema svc = Inr schema
              \<and> ai_generate_sql_query svc request schema = Inl (QueryGenerationError m)
            \<longrightarrow> process cfg str_row svc request = Inr generation_failed)
       \<and> (\<forall>category schema q exc. triage_classify_query svc request = Inr category
              \<and> category \<notin> {''OUT_OF_SCOPE'', ''GREETING'', ''GENERAL_QUESTION''}
              \<and> database_get_schema svc = Inr schema
              \<and> ai_generate_sql_query svc request schema = Inr q
              \<and> database_execute svc q (user_query request) (request_id request) = Inl exc
            \<longrightarrow> process cfg str_row svc request
                  = Inr (if \<exists>m. exc = QueryExecutionError m then execution_failed q
                         else if \<exists>m. exc = DatabaseConnectionError m then connection_failed
                         else execution_unexpected q))
       \<and> schema_unexpected \<noteq> schema_load_failed
       \<and> (\<forall>q. execution_unexpected q \<noteq> execution_failed q
              \<and> execution_unexpected q \<noteq> connection_failed)"
proof (intro conjI allI impI)
  show "\<exists>text. process cfg str_row svc request = Inr text"
  proof (cases "triage_classify_query svc request")
    case (Inl exc)
    with cls obtain m where "exc = ClassificationError m" by blast
    with Inl show ?thesis by (simp add: process_def)
  next
    case (Inr category)
    then show ?thesis
      using general_returns [OF gen] data_returns [OF sqlgen sch exe, of cfg str_row]
      by (simp add: process_def)
  qed
next
  fix m
  assume "triage_classify_query svc request = Inl (ClassificationError m)"
  then show "process cfg str_row svc request = Inr classification_failed"
    by (simp add: process_def)
next
  fix category m
  assume "triage_classify_query svc request = Inr category
              \<and> category \<in> {''GREETING'', ''GENERAL_QUESTION''}
              \<and> ai_answer_general_question svc request = Inl (QueryGenerationError m)"
  then show "process cfg str_row svc request = Inr general_failed"
    by (auto simp: process_def handle_general_question_def)
next
  fix category exc
  assume a: "triage_classify_query svc request = Inr category
              \<and> category \<notin> {''OUT_OF_SCOPE'', ''GREETING'', ''GENERAL_QUESTION''}
              \<and> database_get_schema svc = Inl exc"
  with sch have e: "is_Exception exc" "\<forall>m. exc \<noteq> AttributeError m" by blast+
  have "on_schema_error exc
          = Inr (if \<exists>m. exc = SchemaLoadError m then schema_load_failed else schema_unexpected)"
    using e by (cases exc) simp_all
  with a show "process cfg str_row svc request
                  = Inr (if \<exists>m. exc = SchemaLoadError m then schema_load_failed
                         else schema_unexpected)"
    by (simp add: process_def handle_data_question_def)
next
  fix category schema m
  assume "triage_classify_query svc request = Inr category
              \<and> category \<notin> {''OUT_OF_SCOPE'', ''GREETING'', ''GENERAL_QUESTION''}
              \<and> database_get_schema svc = Inr schema
              \<and> ai_generate_sql_query svc request schema = Inl (QueryGenerationError m)"
  then show "process cfg str_row svc request = Inr generation_failed"
    by (simp add: process_def handle_data_question_def)
next
  fix category schema q exc
  assume a: "triage_classify_query svc request = Inr category
              \<and> category \<notin> {''OUT_OF_SCOPE'', ''GREETING'', ''GENERAL_QUESTION''}
              \<and> database_get_schema svc = Inr schema
              \<and> ai_generate_sql_query svc request schema = Inr q
              \<and> database_execute svc q (user_query request) (request_id request) = Inl exc"
  with exe have e: "is_Exception exc" by blast
  have "on_execution_error q exc
          = Inr (if \<exists>m. exc = QueryExecutionError m then execution_failed q
                 else if \<exists>m. exc = DatabaseConnectionError m then connection_failed
                 else execution_unexpected q)"
    using e by (cases exc) simp_all
  with a show "process cfg str_row svc request
                  = Inr (if \<exists>m. exc = QueryExecutionError m then execution_failed q
                         else if \<exists>m. exc = DatabaseConnectionError m then connection_failed
                         else execution_unexpected q)"
    by (simp add: process_def handle_data_question_def)
next
  show "schema_unexpected \<noteq> schema_load_failed"
    by (simp add: schema_unexpected_def schema_load_failed_def)
next
  fix q
  show "execution_unexpected q \<noteq> execution_failed q"
    by (simp add: execution_unexpected_def execution_failed_def)
next
  fix q
  show "execution_unexpected q \<noteq> connection_failed"
    by (simp add: execution_unexpected_def connection_failed_def)
qed

theorem C1_witness:
  "(\<exists>text. process \<lparr>max_results_display = 5, execute_queries = True\<rparr> (\<lambda>row. row)
       (example_services (Inr ''DATA_QUESTION'') (Inl (OtherException ''timeout'')))
       \<lparr>request_id = ''r1'', user_query = ''top videos'', previous_error = None\<rparr> = Inr text)
   \<and> process \<lparr>max_results_display = 5, execute_queries = True\<rparr> (\<lambda>row. row)
       (example_services (Inr ''DATA_QUESTION'') (Inl (OtherException ''timeout'')))
       \<lparr>request_id = ''r1'', user_query = ''top videos'', previous_error = None\<rparr>
     = Inr schema_unexpected
   \<and> process \<lparr>max_results_display = 5, execute_queries = True\<rparr> (\<lambda>row. row)
       (example_services (Inr ''DATA_QUESTION'') (Inl (SchemaLoadError ''no file'')))
       \<lparr>request_id = ''r1'', user_query = ''top videos'', previous_error = None\<rparr>
     = Inr schema_load_failed"
proof -
  let ?cfg = "\<lparr>max_results_display = 5, execute_queries = True\<rparr>"
  let ?req = "\<lparr>request_id = ''r1'', user_query = ''top videos'', previous_error = None\<rparr>"
  have 1: "\<forall>exc. triage_classify_query (example_services (Inr ''DATA_QUESTION'') s) ?req = Inl exc
             \<longrightarrow> (\<exists>m. exc = ClassificationError m)" for s
    by (simp add: example_services_def)
  have 2: "\<forall>exc. ai_answer_general_question (example_services (Inr ''DATA_QUESTION'') s) ?req = Inl exc
             \<longrightarrow> (\<exists>m. exc = QueryGenerationError m)" for s
    by (simp add: example_services_def)
  have 3: "\<forall>schema exc. ai_generate_sql_query (example_services (Inr ''DATA_QUESTION'') s) ?req schema
               = Inl exc \<longrightarrow> (\<exists>m. exc = QueryGenerationError m)" for s
    by (simp add: example_services_def)
  have 4: "\<forall>exc. database_get_schema (example_services (Inr ''DATA_QUESTION'')
               (Inl (OtherException ''timeout''))) = Inl exc
             \<longrightarrow> is_Exception exc \<and> (\<forall>m. exc \<noteq> AttributeError m)"
    by (auto simp add: example_services_def)
  have 7: "\<forall>exc. database_get_schema (example_services (Inr ''DATA_QUESTION'')
               (Inl (SchemaLoadError ''no file''))) = Inl exc
             \<longrightarrow> is_Exception exc \<and> (\<forall>m. exc \<noteq> AttributeError m)"
    by (auto simp add: example_services_def)
  have 5: "\<forall>q u i exc. database_execute (example_services (Inr ''DATA_QUESTION'') s) q u i = Inl exc
             \<longrightarrow> is_Exception exc" for s
    by (simp add: example_services_def)
  have 6: "triage_classify_query (example_services (Inr ''DATA_QUESTION'') s) ?req = Inr ''DATA_QUESTION''
             \<and> ''DATA_QUESTION'' \<notin> {''OUT_OF_SCOPE'', ''GREETING'', ''GENERAL_QUESTION''}
             \<and> database_get_schema (example_services (Inr ''DATA_QUESTION'') s) = s" for s
    by (simp add: example_services_def)
  note a = C1_process_returns [OF 1 2 3 4 5, of ?cfg "\<lambda>row. row"]
  note b = C1_process_returns [OF 1 2 3 7 5, of ?cfg "\<lambda>row. row"]
  have A: "\<exists>text. process ?cfg (\<lambda>row. row)
       (example_services (Inr ''DATA_QUESTION'') (Inl (OtherException ''timeout''))) ?req = Inr text"
    by (rule a [THEN conjunct1])
  have B: "process ?cfg (\<lambda>row. row)
       (example_services (Inr ''DATA_QUESTION'') (Inl (OtherException ''timeout''))) ?req
     = Inr (if \<exists>m. OtherException ''timeout'' = SchemaLoadError m then schema_load_failed
            else schema_unexpected)"
    by (rule a [THEN conjunct2, THEN conjunct2, THEN conjunct2, THEN conjunct1, rule_format,
          OF 6 [of "Inl (OtherException ''timeout'')"]])
  have C: "process ?cfg (\<lambda>row. row)
       (example_services (Inr ''DATA_QUESTION'') (Inl (SchemaLoadError ''no file''))) ?req
     = Inr (if \<exists>m. SchemaLoadError ''no file'' = SchemaLoadError m then schema_load_failed
            else schema_unexpected)"
    by (rule b [THEN conjunct2, THEN conjunct2, THEN conjunct2, THEN conjunct1, rule_format,
          OF 6 [of "Inl (SchemaLoadError ''no file'')"]])
  from A B C show ?thesis by simp
qed

end
